theory Spec2Isabelle
  imports Main "HOL-Library.Word" "HOL-Library.Sublist"
begin

unbundle bit_operations_syntax

section \<open>POSIX path arithmetic used by the server\<close>

text \<open>
  The server is written against Node's \<open>path\<close> module. The functions below follow the
  POSIX flavour of that module (\<open>path.sep = "/"\<close>): \<open>normalizeString\<close>, \<open>normalize\<close>,
  \<open>join\<close>, \<open>resolve\<close>, \<open>dirname\<close> and \<open>extname\<close>. A path is a \<open>string\<close>.
\<close>

text \<open>Splitting at every separator: \<open>"a//b"\<close> gives \<open>["a", "", "b"]\<close>, \<open>""\<close> gives \<open>[""]\<close>.\<close>

fun split_sep :: "string \<Rightarrow> string list" where
  "split_sep [] = [[]]"
| "split_sep (c # cs) =
     (if c = CHR ''/'' then [] # split_sep cs
      else (case split_sep cs of [] \<Rightarrow> [[c]] | s # ss \<Rightarrow> (c # s) # ss))"

fun join_sep :: "string list \<Rightarrow> string" where
  "join_sep [] = []"
| "join_sep [s] = s"
| "join_sep (s # t # ss) = s @ CHR ''/'' # join_sep (t # ss)"

text \<open>
  One segment of \<open>normalizeString\<close>: an empty segment and \<open>.\<close> are dropped; \<open>..\<close> removes
  the last kept segment unless there is none or it is itself \<open>..\<close>, in which case \<open>..\<close> is
  kept only when \<open>allowAboveRoot\<close> holds; any other segment is kept. The kept segments
  are held last-first.
\<close>

fun norm_step :: "bool \<Rightarrow> string list \<Rightarrow> string \<Rightarrow> string list" where
  "norm_step allowAboveRoot res seg =
     (if seg = [] \<or> seg = ''.'' then res
      else if seg = ''..'' then
        (case res of
           [] \<Rightarrow> (if allowAboveRoot then [''..''] else [])
         | lastSeg # rest \<Rightarrow>
             (if lastSeg = ''..'' then (if allowAboveRoot then ''..'' # res else res)
              else rest))
      else seg # res)"

definition norm_segments :: "bool \<Rightarrow> string list \<Rightarrow> string list" where
  "norm_segments allowAboveRoot segs = rev (foldl (norm_step allowAboveRoot) [] segs)"

definition normalizeString :: "string \<Rightarrow> bool \<Rightarrow> string" where
  "normalizeString path allowAboveRoot =
     join_sep (norm_segments allowAboveRoot (split_sep path))"

definition isAbsolute :: "string \<Rightarrow> bool" where
  "isAbsolute path = (case path of [] \<Rightarrow> False | c # _ \<Rightarrow> c = CHR ''/'')"

definition endsWithSep :: "string \<Rightarrow> bool" where
  "endsWithSep path = (path \<noteq> [] \<and> last path = CHR ''/'')"

definition posix_normalize :: "string \<Rightarrow> string" where
  "posix_normalize path =
     (if path = [] then ''.''
      else
        let absolute = isAbsolute path;
            trailingSeparator = endsWithSep path;
            p = normalizeString path (\<not> absolute)
        in if p = [] then (if absolute then ''/'' else if trailingSeparator then ''./'' else ''.'')
           else
             let p' = (if trailingSeparator then p @ ''/'' else p)
             in if absolute then CHR ''/'' # p' else p')"

definition posix_join :: "string list \<Rightarrow> string" where
  "posix_join args =
     (case filter (\<lambda>a. a \<noteq> []) args of
        [] \<Rightarrow> ''.''
      | joined \<Rightarrow> posix_normalize (join_sep joined))"

text \<open>
  \<open>path.resolve\<close> walks its arguments from the right, prepending each non-empty one,
  until the accumulated path is absolute; when the arguments do not give an absolute
  path the current working directory of the process is prepended last. The working
  directory is ambient process state in the source; here it is the parameter \<open>cwd\<close>.
\<close>

fun resolve_loop :: "string list \<Rightarrow> string \<Rightarrow> string \<times> bool" where
  "resolve_loop [] resolvedPath = (resolvedPath, False)"
| "resolve_loop (path # rest) resolvedPath =
     (if path = [] then resolve_loop rest resolvedPath
      else if isAbsolute path then (path @ CHR ''/'' # resolvedPath, True)
      else resolve_loop rest (path @ CHR ''/'' # resolvedPath))"

definition posix_resolve :: "string \<Rightarrow> string list \<Rightarrow> string" where
  "posix_resolve cwd args =
     (case resolve_loop (rev args @ [cwd]) [] of
        (resolvedPath, resolvedAbsolute) \<Rightarrow>
          let p = normalizeString resolvedPath (\<not> resolvedAbsolute)
          in if resolvedAbsolute then CHR ''/'' # p
             else if p \<noteq> [] then p else ''.'')"

text \<open>
  \<open>path.dirname\<close>: scanning from the right over the characters after the first one,
  trailing separators are skipped, then the last segment, and the path up to the
  separator in front of it is returned.
\<close>

definition posix_dirname :: "string \<Rightarrow> string" where
  "posix_dirname path =
     (case path of
        [] \<Rightarrow> ''.''
      | c # cs \<Rightarrow>
          let hasRoot = (c = CHR ''/'');
              r = dropWhile (\<lambda>x. x \<noteq> CHR ''/'') (dropWhile (\<lambda>x. x = CHR ''/'') (rev cs));
              endIdx = length r
          in if r = [] then (if hasRoot then ''/'' else ''.'')
             else if hasRoot \<and> endIdx = 1 then ''//''
             else take endIdx path)"

text \<open>
  \<open>path.extname\<close>: the extension of the last segment, from its last dot; empty when
  that segment has no dot, when its only dot is its first character, or when the
  segment is \<open>..\<close>.
\<close>

definition posix_extname :: "string \<Rightarrow> string" where
  "posix_extname path =
     (let base = rev (takeWhile (\<lambda>x. x \<noteq> CHR ''/'') (dropWhile (\<lambda>x. x = CHR ''/'') (rev path)));
          afterDot = rev (takeWhile (\<lambda>x. x \<noteq> CHR ''.'') (rev base));
          preDot = take (length base - length afterDot - 1) base
      in if CHR ''.'' \<notin> set base \<or> preDot = [] \<or> (base = ''..'') then []
         else CHR ''.'' # afterDot)"


section \<open>Errors\<close>

text \<open>
  The source throws \<open>new Error("Invalid path")\<close> from \<open>resolveSafePath\<close>; every other
  exception it can meet comes from a filesystem call. Of the message of such an error
  (\<open>ENOENT: no such file or directory, open ...\<close>) the model keeps the error code it
  starts with.
\<close>

datatype error = InvalidPathError | IOError string

fun message :: "error \<Rightarrow> string" where
  "message InvalidPathError = ''Invalid path''"
| "message (IOError m) = m"

section \<open>resolveSafePath\<close>

definition startsWith :: "string \<Rightarrow> string \<Rightarrow> bool" where
  "startsWith s searchString = prefix searchString s"

definition resolveSafePath :: "string \<Rightarrow> string \<Rightarrow> string list \<Rightarrow> error + string" where
  "resolveSafePath cwd rootDir segments =
     (let unsafePath = posix_join segments;
          resolved = posix_resolve cwd [rootDir, unsafePath];
          normalizedRoot = (if endsWithSep rootDir then rootDir else rootDir @ ''/'')
      in if \<not> startsWith (resolved @ ''/'') normalizedRoot then Inl InvalidPathError
         else Inr resolved)"

text \<open>
  The containment the specification asks for, in its own words: the path equals the
  root, or the root followed by a separator is a prefix of the path. A root may be
  written with one trailing separator.
\<close>

definition root_without_sep :: "string \<Rightarrow> string" where
  "root_without_sep rootDir = (if endsWithSep rootDir then butlast rootDir else rootDir)"

definition root_with_sep :: "string \<Rightarrow> string" where
  "root_with_sep rootDir = (if endsWithSep rootDir then rootDir else rootDir @ ''/'')"

definition within_root :: "string \<Rightarrow> string \<Rightarrow> bool" where
  "within_root rootDir p = (p = root_without_sep rootDir \<or> prefix (root_with_sep rootDir) p)"

text \<open>
  The same containment read on path components: the components of the root are the
  leading components of the path.
\<close>

definition path_components :: "string \<Rightarrow> string list" where
  "path_components p = filter (\<lambda>s. s \<noteq> []) (split_sep p)"

definition inside_root :: "string \<Rightarrow> string \<Rightarrow> bool" where
  "inside_root rootDir p = prefix (path_components rootDir) (path_components p)"

text \<open>An absolute path in normal form is one that \<open>path.resolve\<close> returns unchanged.\<close>

definition is_resolved :: "string \<Rightarrow> bool" where
  "is_resolved p = (isAbsolute p \<and> posix_resolve [] [p] = p)"


section \<open>SHA-256 and its hexadecimal rendering\<close>

text \<open>
  \<open>crypto.createHash("sha256")\<close> is the SHA-256 function of FIPS 180-4, on 32-bit words
  with wrap-around addition. File contents are lists of bytes.
\<close>

type_synonym byte = "8 word"
type_synonym bytes = "byte list"
type_synonym hash_state = "32 word \<times> 32 word \<times> 32 word \<times> 32 word \<times> 32 word \<times> 32 word \<times> 32 word \<times> 32 word"

text \<open>The round constants of FIPS 180-4, section 4.2.2, eight rounds to a row.\<close>

definition K256_0 :: "32 word list" where
  "K256_0 = [0x428a2f98, 0x71374491, 0xb5c0fbcf, 0xe9b5dba5,
     0x3956c25b, 0x59f111f1, 0x923f82a4, 0xab1c5ed5]"

definition K256_1 :: "32 word list" where
  "K256_1 = [0xd807aa98, 0x12835b01, 0x243185be, 0x550c7dc3,
     0x72be5d74, 0x80deb1fe, 0x9bdc06a7, 0xc19bf174]"

definition K256_2 :: "32 word list" where
  "K256_2 = [0xe49b69c1, 0xefbe4786, 0x0fc19dc6, 0x240ca1cc,
     0x2de92c6f, 0x4a7484aa, 0x5cb0a9dc, 0x76f988da]"

definition K256_3 :: "32 word list" where
  "K256_3 = [0x983e5152, 0xa831c66d, 0xb00327c8, 0xbf597fc7,
     0xc6e00bf3, 0xd5a79147, 0x06ca6351, 0x14292967]"

definition K256_4 :: "32 word list" where
  "K256_4 = [0x27b70a85, 0x2e1b2138, 0x4d2c6dfc, 0x53380d13,
     0x650a7354, 0x766a0abb, 0x81c2c92e, 0x92722c85]"

definition K256_5 :: "32 word list" where
  "K256_5 = [0xa2bfe8a1, 0xa81a664b, 0xc24b8b70, 0xc76c51a3,
     0xd192e819, 0xd6990624, 0xf40e3585, 0x106aa070]"

definition K256_6 :: "32 word list" where
  "K256_6 = [0x19a4c116, 0x1e376c08, 0x2748774c, 0x34b0bcb5,
     0x391c0cb3, 0x4ed8aa4a, 0x5b9cca4f, 0x682e6ff3]"

definition K256_7 :: "32 word list" where
  "K256_7 = [0x748f82ee, 0x78a5636f, 0x84c87814, 0x8cc70208,
     0x90befffa, 0xa4506ceb, 0xbef9a3f7, 0xc67178f2]"

definition K256 :: "32 word list" where
  "K256 = K256_0 @ K256_1 @ K256_2 @ K256_3 @ K256_4 @ K256_5 @ K256_6 @ K256_7"

definition H256 :: hash_state where
  "H256 = (0x6a09e667, 0xbb67ae85, 0x3c6ef372, 0xa54ff53a, 0x510e527f, 0x9b05688c, 0x1f83d9ab, 0x5be0cd19)"

definition rotr :: "nat \<Rightarrow> 32 word \<Rightarrow> 32 word" where
  "rotr n x = (drop_bit n x) OR (push_bit (32 - n) x)"

definition Ch :: "32 word \<Rightarrow> 32 word \<Rightarrow> 32 word \<Rightarrow> 32 word" where
  "Ch x y z = (x AND y) XOR (NOT x AND z)"

definition Maj :: "32 word \<Rightarrow> 32 word \<Rightarrow> 32 word \<Rightarrow> 32 word" where
  "Maj x y z = (x AND y) XOR (x AND z) XOR (y AND z)"

definition bsig0 :: "32 word \<Rightarrow> 32 word" where
  "bsig0 x = rotr 2 x XOR rotr 13 x XOR rotr 22 x"

definition bsig1 :: "32 word \<Rightarrow> 32 word" where
  "bsig1 x = rotr 6 x XOR rotr 11 x XOR rotr 25 x"

definition ssig0 :: "32 word \<Rightarrow> 32 word" where
  "ssig0 x = rotr 7 x XOR rotr 18 x XOR drop_bit 3 x"

definition ssig1 :: "32 word \<Rightarrow> 32 word" where
  "ssig1 x = rotr 17 x XOR rotr 19 x XOR drop_bit 10 x"

text \<open>Padding: a \<open>0x80\<close> byte, zero bytes up to 56 modulo 64, the bit length on 64 bits.\<close>

definition be64 :: "64 word \<Rightarrow> bytes" where
  "be64 n = map (\<lambda>s. ucast (drop_bit s n)) [56, 48, 40, 32, 24, 16, 8, 0]"

definition pad :: "bytes \<Rightarrow> bytes" where
  "pad m = m @ [0x80] @ replicate ((119 - length m mod 64) mod 64) 0 @ be64 (word_of_nat (8 * length m))"

primrec blocks :: "nat \<Rightarrow> bytes \<Rightarrow> bytes list" where
  "blocks 0 m = []"
| "blocks (Suc n) m = take 64 m # blocks n (drop 64 m)"

fun be32 :: "bytes \<Rightarrow> 32 word" where
  "be32 bs = foldl (\<lambda>w b. push_bit 8 w OR ucast b) 0 (take 4 bs)"

primrec block_words :: "nat \<Rightarrow> bytes \<Rightarrow> 32 word list" where
  "block_words 0 b = []"
| "block_words (Suc n) b = be32 b # block_words n (drop 4 b)"

primrec schedule :: "nat \<Rightarrow> 32 word list \<Rightarrow> 32 word list" where
  "schedule 0 w = w"
| "schedule (Suc n) w =
     (let t = length w
      in schedule n (w @ [ssig1 (w ! (t - 2)) + w ! (t - 7) + ssig0 (w ! (t - 15)) + w ! (t - 16)]))"

fun round256 :: "hash_state \<Rightarrow> 32 word \<times> 32 word \<Rightarrow> hash_state" where
  "round256 (a, b, c, d, e, f, g, h) (k, w) =
     (let t1 = h + bsig1 e + Ch e f g + k + w;
          t2 = bsig0 a + Maj a b c
      in (t1 + t2, a, b, c, d + t1, e, f, g))"

fun add_state :: "hash_state \<Rightarrow> hash_state \<Rightarrow> hash_state" where
  "add_state (a, b, c, d, e, f, g, h) (a', b', c', d', e', f', g', h') =
     (a + a', b + b', c + c', d + d', e + e', f + f', g + g', h + h')"

definition compress :: "hash_state \<Rightarrow> bytes \<Rightarrow> hash_state" where
  "compress H b = add_state H (foldl round256 H (zip K256 (schedule 48 (block_words 16 b))))"

definition sha256 :: "bytes \<Rightarrow> hash_state" where
  "sha256 m = (let p = pad m in foldl compress H256 (blocks (length p div 64) p))"

text \<open>\<open>digest("hex")\<close>: each byte of the digest as two lowercase hexadecimal digits.\<close>

definition hex_digit :: "32 word \<Rightarrow> char" where
  "hex_digit n = ''0123456789abcdef'' ! unat (n AND 0xF)"

definition hex32 :: "32 word \<Rightarrow> string" where
  "hex32 w = map (\<lambda>s. hex_digit (drop_bit s w)) [28, 24, 20, 16, 12, 8, 4, 0]"

fun hex_state :: "hash_state \<Rightarrow> string" where
  "hex_state (a, b, c, d, e, f, g, h) =
     hex32 a @ hex32 b @ hex32 c @ hex32 d @ hex32 e @ hex32 f @ hex32 g @ hex32 h"

definition sha256_hex :: "bytes \<Rightarrow> string" where
  "sha256_hex m = hex_state (sha256 m)"


section \<open>The filesystem\<close>

text \<open>
  The store is a map from absolute paths to nodes: a regular file with its bytes, or a
  directory. The operations are the \<open>fs.promises\<close> calls the server makes; each either
  fails with an I/O error or returns the new filesystem.
\<close>

datatype node = File bytes | Dir

type_synonym filesystem = "string \<rightharpoonup> node"

definition is_file :: "node option \<Rightarrow> bool" where
  "is_file n = (case n of Some (File _) \<Rightarrow> True | _ \<Rightarrow> False)"

text \<open>\<open>fs.promises.access(p, F_OK)\<close>: succeeds when anything exists at \<open>p\<close>.\<close>

definition fs_access :: "filesystem \<Rightarrow> string \<Rightarrow> error + unit" where
  "fs_access fs p = (case fs p of None \<Rightarrow> Inl (IOError ''ENOENT'') | Some _ \<Rightarrow> Inr ())"

text \<open>\<open>fs.promises.unlink(p)\<close>: removes a regular file.\<close>

definition fs_unlink :: "filesystem \<Rightarrow> string \<Rightarrow> error + filesystem" where
  "fs_unlink fs p =
     (case fs p of
        None \<Rightarrow> Inl (IOError ''ENOENT'')
      | Some Dir \<Rightarrow> Inl (IOError ''EISDIR'')
      | Some (File _) \<Rightarrow> Inr (fs(p := None)))"

text \<open>
  \<open>fs.promises.mkdir(d, {recursive: true})\<close>: the directory and every missing ancestor
  are created. It fails with \<open>ENOTDIR\<close> when a proper ancestor of the directory is a
  regular file (the path cannot be walked), and with \<open>EEXIST\<close> when the path itself is
  a regular file. The ancestors are found by taking \<open>dirname\<close> until it no longer
  changes the path.
\<close>

primrec parents :: "nat \<Rightarrow> string \<Rightarrow> string list" where
  "parents 0 p = []"
| "parents (Suc n) p =
     (let d = posix_dirname p in if d = p then [] else d # parents n d)"

definition ancestors :: "string \<Rightarrow> string list" where
  "ancestors d = d # parents (length d) d"

definition fs_mkdir :: "filesystem \<Rightarrow> string \<Rightarrow> error + filesystem" where
  "fs_mkdir fs d =
     (if list_ex (\<lambda>a. is_file (fs a)) (parents (length d) d) then Inl (IOError ''ENOTDIR'')
      else if is_file (fs d) then Inl (IOError ''EEXIST'')
      else Inr (\<lambda>q. if q \<in> set (ancestors d) then Some Dir else fs q))"

text \<open>
  \<open>fs.promises.rename(src, dst)\<close> of a regular file: the destination is replaced when
  it is a regular file, as \<open>rename(2)\<close> does. The server only ever renames the staged
  upload it has just read, a regular file; a directory source is outside this model and
  is reported as an error.
\<close>

definition fs_rename :: "filesystem \<Rightarrow> string \<Rightarrow> string \<Rightarrow> error + filesystem" where
  "fs_rename fs src dst =
     (case fs src of
        None \<Rightarrow> Inl (IOError ''ENOENT'')
      | Some Dir \<Rightarrow> Inl (IOError ''EISDIR'')
      | Some (File b) \<Rightarrow>
          (case fs dst of
             Some Dir \<Rightarrow> Inl (IOError ''EISDIR'')
           | _ \<Rightarrow>
               if fs (posix_dirname dst) = Some Dir then Inr (fs(src := None, dst \<mapsto> File b))
               else Inl (IOError ''ENOENT'')))"

text \<open>
  \<open>fs.createWriteStream(p, {flags: "w"})\<close> with the request piped into it, up to the
  stream's \<open>finish\<close> or \<open>error\<close> event: the file is created or truncated and holds
  the payload; opening fails on a directory or under a missing directory.
\<close>

definition fs_write :: "filesystem \<Rightarrow> string \<Rightarrow> bytes \<Rightarrow> error + filesystem" where
  "fs_write fs p payload =
     (case fs p of
        Some Dir \<Rightarrow> Inl (IOError ''EISDIR'')
      | _ \<Rightarrow>
          if fs (posix_dirname p) = Some Dir then Inr (fs(p \<mapsto> File payload))
          else Inl (IOError ''ENOENT''))"

section \<open>computeFileSha256Hex\<close>

text \<open>
  The file is read as a stream of chunks of at most 65536 bytes (the default
  \<open>highWaterMark\<close> of \<open>fs.createReadStream\<close>); every chunk is fed to the hash object,
  whose state is the message so far, and the digest is taken at the end of the stream.
  A missing file or a directory makes the stream emit \<open>error\<close>, which rejects.
\<close>

primrec stream_chunks :: "nat \<Rightarrow> bytes \<Rightarrow> bytes list" where
  "stream_chunks 0 b = []"
| "stream_chunks (Suc n) b =
     (if b = [] then [] else take 65536 b # stream_chunks n (drop 65536 b))"

definition hash_update :: "bytes \<Rightarrow> bytes \<Rightarrow> bytes" where
  "hash_update h chunk = h @ chunk"

definition hash_digest_hex :: "bytes \<Rightarrow> string" where
  "hash_digest_hex h = sha256_hex h"

definition computeFileSha256Hex :: "filesystem \<Rightarrow> string \<Rightarrow> error + string" where
  "computeFileSha256Hex fs filePath =
     (case fs filePath of
        None \<Rightarrow> Inl (IOError ''ENOENT'')
      | Some Dir \<Rightarrow> Inl (IOError ''EISDIR'')
      | Some (File b) \<Rightarrow>
          Inr (hash_digest_hex (foldl hash_update [] (stream_chunks (length b) b))))"


section \<open>Requests and responses\<close>

text \<open>
  A multipart request as the upload middleware hands it over: the bucket from the route,
  the text fields of the form (\<open>req.body\<close>, possibly undefined) and the stored file
  (\<open>req.file\<close>, undefined when no file part was sent). A response is a status code and
  the members of its JSON body, in order.
\<close>

record uploaded_file =
  filename :: string
  originalname :: string
  size_bytes :: nat

record upload_request =
  bucket :: string
  body :: "(string \<rightharpoonup> string) option"
  req_file :: "uploaded_file option"

datatype json_value = JString string | JNumber nat

record response =
  status :: nat
  json :: "(string \<times> json_value) list"

text \<open>JavaScript's \<open>a || b\<close> on a string that may be undefined: undefined and \<open>""\<close> are falsy.\<close>

definition js_or :: "string option \<Rightarrow> string option \<Rightarrow> string option" where
  "js_or a b = (case a of None \<Rightarrow> b | Some s \<Rightarrow> if s = [] then b else a)"

definition js_String :: "string option \<Rightarrow> string" where
  "js_String v = (case v of None \<Rightarrow> ''undefined'' | Some s \<Rightarrow> s)"

text \<open>\<open>s.replace(/\\/g, "/")\<close>.\<close>

definition replace_backslashes :: "string \<Rightarrow> string" where
  "replace_backslashes s = map (\<lambda>c. if c = CHR 0x5C then CHR ''/'' else c) s"

definition urlPath :: "string \<Rightarrow> string \<Rightarrow> string" where
  "urlPath b k = replace_backslashes (''/public/'' @ b @ ''/'' @ k)"

definition error_response :: "nat \<Rightarrow> string \<Rightarrow> response" where
  "error_response code msg = \<lparr>status = code, json = [(''error'', JString msg)]\<rparr>"

section \<open>The staging callbacks of the upload middleware\<close>

text \<open>
  \<open>storage.destination\<close>: the directory of the logical key under the bucket, created on
  demand. \<open>publicRoot\<close> is the resolved \<open>public\<close> directory beside the program.
\<close>

definition storage_destination ::
  "string \<Rightarrow> string \<Rightarrow> filesystem \<Rightarrow> upload_request \<Rightarrow> filesystem \<times> (error + string)" where
  "storage_destination publicRoot cwd fs req =
     (let rawKey = js_or (case body req of None \<Rightarrow> None
                          | Some b \<Rightarrow> js_or (b ''key'') (b ''Key'')) (Some []);
          key = js_String rawKey;
          dirName = (if key \<noteq> [] then posix_dirname key else []);
          finalDir = (if dirName = ''.'' then [] else dirName)
      in case resolveSafePath cwd publicRoot [bucket req, finalDir] of
           Inl err \<Rightarrow> (fs, Inl err)
         | Inr destDir \<Rightarrow>
             (case fs_mkdir fs destDir of
                Inl err \<Rightarrow> (fs, Inl err)
              | Inr fs' \<Rightarrow> (fs', Inr destDir)))"

text \<open>\<open>toString("hex")\<close> of a buffer.\<close>

definition hex_bytes :: "bytes \<Rightarrow> string" where
  "hex_bytes bs = concat (map (\<lambda>b. [hex_digit (drop_bit 4 (ucast b)), hex_digit (ucast b)]) bs)"

text \<open>
  \<open>storage.filename\<close>: sixteen random bytes in hexadecimal, followed by the extension of
  the logical key or, when there is none, of the original file name. The random bytes
  are the parameter \<open>randomBytes\<close>.
\<close>

definition storage_filename :: "bytes \<Rightarrow> upload_request \<Rightarrow> string \<Rightarrow> string" where
  "storage_filename randomBytes req original =
     (let rawKey = js_or (case body req of None \<Rightarrow> None
                          | Some b \<Rightarrow> js_or (b ''key'') (b ''Key'')) (Some []);
          key = js_String (js_or rawKey (Some []));
          extSource = js_String (js_or (js_or (Some key) (Some original)) (Some []));
          ext = posix_extname extSource;
          hash = hex_bytes randomBytes;
          hashedName = hash @ ext
      in hashedName)"

section \<open>The hashed upload: \<open>POST /:bucket\<close>\<close>

text \<open>The locals of the handler that depend on the request alone.\<close>

definition fullKey :: "upload_request \<Rightarrow> string" where
  "fullKey req =
     (let rawKey = js_or (case body req of None \<Rightarrow> None
                          | Some b \<Rightarrow> js_or (b ''key'') (b ''Key'')) (Some [])
      in js_String (js_or rawKey (Some [])))"

definition finalDir :: "upload_request \<Rightarrow> string" where
  "finalDir req =
     (let dirName = (if fullKey req \<noteq> [] then posix_dirname (fullKey req) else [])
      in if dirName = ''.'' then [] else dirName)"

definition savedFileName :: "upload_request \<Rightarrow> string option" where
  "savedFileName req = (case req_file req of None \<Rightarrow> None | Some f \<Rightarrow> Some (filename f))"

definition tempKey :: "upload_request \<Rightarrow> string \<Rightarrow> string" where
  "tempKey req saved = (if finalDir req \<noteq> [] then posix_join [finalDir req, saved] else saved)"

definition ext :: "upload_request \<Rightarrow> string" where
  "ext req =
     posix_extname
       (js_String (js_or (js_or (case req_file req of None \<Rightarrow> None | Some f \<Rightarrow> Some (originalname f))
                                (Some (fullKey req)))
                         (Some [])))"

definition finalKey :: "upload_request \<Rightarrow> string \<Rightarrow> string" where
  "finalKey req sha256Hex =
     (let hashedName = sha256Hex @ ext req
      in if finalDir req \<noteq> [] then posix_join [finalDir req, hashedName] else hashedName)"

text \<open>
  The deduplication block: when something exists at the final path the staged file is
  unlinked; when the check or the unlink throws, the directory of the final path is
  created and the staged file renamed onto the final path. An error of the second part
  leaves the block.
\<close>

definition dedup_rename :: "filesystem \<Rightarrow> string \<Rightarrow> string \<Rightarrow> filesystem \<times> error option" where
  "dedup_rename fs tempPath finalPath =
     (case fs_mkdir fs (posix_dirname finalPath) of
        Inl err \<Rightarrow> (fs, Some err)
      | Inr fs1 \<Rightarrow>
          (case fs_rename fs1 tempPath finalPath of
             Inl err \<Rightarrow> (fs1, Some err)
           | Inr fs2 \<Rightarrow> (fs2, None)))"

definition dedup_finalize :: "filesystem \<Rightarrow> string \<Rightarrow> string \<Rightarrow> filesystem \<times> error option" where
  "dedup_finalize fs tempPath finalPath =
     (case fs_access fs finalPath of
        Inl _ \<Rightarrow> dedup_rename fs tempPath finalPath
      | Inr _ \<Rightarrow>
          (case fs_unlink fs tempPath of
             Inl _ \<Rightarrow> dedup_rename fs tempPath finalPath
           | Inr fs' \<Rightarrow> (fs', None)))"

text \<open>The \<open>200\<close> response of the hashed upload.\<close>

definition post_success :: "upload_request \<Rightarrow> string \<Rightarrow> string \<Rightarrow> response" where
  "post_success req sha256Hex finalPath =
     \<lparr>status = 200,
      json = [(''bucket'', JString (bucket req)),
              (''key'', JString (finalKey req sha256Hex)),
              (''path'', JString finalPath),
              (''url'', JString (urlPath (bucket req) (finalKey req sha256Hex))),
              (''size'', JNumber (case req_file req of None \<Rightarrow> 0 | Some f \<Rightarrow> size_bytes f)),
              (''sha256'', JString sha256Hex)]\<rparr>"

definition post_handler ::
  "string \<Rightarrow> string \<Rightarrow> filesystem \<Rightarrow> upload_request \<Rightarrow> filesystem \<times> response" where
  "post_handler publicRoot cwd fs req =
     (case js_or (savedFileName req) None of
        None \<Rightarrow> (fs, error_response 400 ''Missing uploaded file'')
      | Some saved \<Rightarrow>
          (case resolveSafePath cwd publicRoot [bucket req, tempKey req saved] of
             Inl err \<Rightarrow> (fs, error_response 400 (message err))
           | Inr tempPath \<Rightarrow>
               (case computeFileSha256Hex fs tempPath of
                  Inl err \<Rightarrow> (fs, error_response 400 (message err))
                | Inr sha256Hex \<Rightarrow>
                    (case resolveSafePath cwd publicRoot [bucket req, finalKey req sha256Hex] of
                       Inl err \<Rightarrow> (fs, error_response 400 (message err))
                     | Inr finalPath \<Rightarrow>
                         (case dedup_finalize fs tempPath finalPath of
                            (fs', Some err) \<Rightarrow> (fs', error_response 400 (message err))
                          | (fs', None) \<Rightarrow> (fs', post_success req sha256Hex finalPath))))))"

section \<open>The direct write: \<open>PUT /:bucket/:key\<close>\<close>

text \<open>The \<open>200\<close> response of the direct write.\<close>

definition put_success :: "string \<Rightarrow> string \<Rightarrow> string \<Rightarrow> response" where
  "put_success bucketParam key outPath =
     \<lparr>status = 200,
      json = [(''bucket'', JString bucketParam),
              (''key'', JString key),
              (''path'', JString outPath),
              (''url'', JString (urlPath bucketParam key))]\<rparr>"

definition put_handler ::
  "string \<Rightarrow> string \<Rightarrow> filesystem \<Rightarrow> string \<Rightarrow> string \<Rightarrow> bytes \<Rightarrow> filesystem \<times> response" where
  "put_handler publicRoot cwd fs bucketParam keyParam payload =
     (let key = js_String (js_or (Some keyParam) (Some []))
      in if key = [] then (fs, error_response 400 ''Missing key'')
         else
           (case resolveSafePath cwd publicRoot [bucketParam, key] of
              Inl err \<Rightarrow> (fs, error_response 400 (message err))
            | Inr outPath \<Rightarrow>
                (case fs_mkdir fs (posix_dirname outPath) of
                   Inl err \<Rightarrow> (fs, error_response 400 (message err))
                 | Inr fs1 \<Rightarrow>
                     (case fs_write fs1 outPath payload of
                        Inl err \<Rightarrow> (fs1, error_response 500 (message err))
                      | Inr fs2 \<Rightarrow> (fs2, put_success bucketParam key outPath)))))"

section \<open>The upload middleware in front of the hashed upload\<close>

text \<open>
  The route of the hashed upload is \<open>app.post("/:bucket", upload.single("file"), ...)\<close>:
  the upload middleware reads the request before the handler runs. A request that is
  not a multipart form passes through with \<open>req.body\<close> and \<open>req.file\<close> undefined. Of a
  multipart form the middleware collects the text fields into \<open>req.body\<close> as they
  arrive, and stores the file part through the disk storage when it arrives: the
  storage calls \<open>storage.destination\<close>, then \<open>storage.filename\<close>, and pipes the part
  into a write stream on the two joined by \<open>path.join\<close>; the stored file becomes
  \<open>req.file\<close> with its name and the number of bytes written. The two callbacks run when
  the file part arrives, so they see the text fields that precede it; the handler sees
  all of them. A file part without a file name is skipped.

  A form is taken with each text field sent once and at most one file part, sent in
  the field \<open>file\<close>; \<open>form_early\<close> names the text fields that precede the file part.
\<close>

record file_part =
  part_filename :: string
  part_content :: bytes

record multipart_form =
  form_fields :: "string \<rightharpoonup> string"
  form_early :: "string set"
  form_file :: "file_part option"

text \<open>The request as the storage callbacks see it, and as the handler sees it.\<close>

definition staging_request :: "string \<Rightarrow> multipart_form \<Rightarrow> upload_request" where
  "staging_request bucketParam m =
     \<lparr>bucket = bucketParam, body = Some (form_fields m |` form_early m), req_file = None\<rparr>"

definition handler_request ::
  "string \<Rightarrow> multipart_form \<Rightarrow> uploaded_file option \<Rightarrow> upload_request" where
  "handler_request bucketParam m stored =
     \<lparr>bucket = bucketParam, body = Some (form_fields m), req_file = stored\<rparr>"

text \<open>
  \<open>upload.single("file")\<close> with the disk storage. An error of a storage callback or of
  the write stream is handed to \<open>next(err)\<close>: the result is then the error, and the
  handler does not run.
\<close>

definition upload_single ::
  "string \<Rightarrow> string \<Rightarrow> filesystem \<Rightarrow> string \<Rightarrow> bytes \<Rightarrow> multipart_form option
     \<Rightarrow> filesystem \<times> (error + upload_request)" where
  "upload_single publicRoot cwd fs bucketParam randomBytes form =
     (case form of
        None \<Rightarrow> (fs, Inr \<lparr>bucket = bucketParam, body = None, req_file = None\<rparr>)
      | Some m \<Rightarrow>
          (case form_file m of
             None \<Rightarrow> (fs, Inr (handler_request bucketParam m None))
           | Some part \<Rightarrow>
               if part_filename part = [] then (fs, Inr (handler_request bucketParam m None))
               else
                 (case storage_destination publicRoot cwd fs (staging_request bucketParam m) of
                    (fs1, Inl err) \<Rightarrow> (fs1, Inl err)
                  | (fs1, Inr destination) \<Rightarrow>
                      (let name = storage_filename randomBytes (staging_request bucketParam m)
                                    (part_filename part);
                           finalPath = posix_join [destination, name]
                       in case fs_write fs1 finalPath (part_content part) of
                            Inl err \<Rightarrow> (fs1, Inl err)
                          | Inr fs2 \<Rightarrow>
                              (fs2, Inr (handler_request bucketParam m
                                 (Some \<lparr>filename = name, originalname = part_filename part,
                                        size_bytes = length (part_content part)\<rparr>)))))))"

text \<open>
  The program installs no error-handling middleware, so an error handed to \<open>next\<close>
  reaches the framework's default error handler. The errors met here carry no status of
  their own, and the handler answers \<open>500\<close> with a page that is not JSON.
\<close>

definition default_error_response :: response where
  "default_error_response = \<lparr>status = 500, json = []\<rparr>"

text \<open>The hashed upload as a whole: the middleware, then the handler.\<close>

definition post_entry ::
  "string \<Rightarrow> string \<Rightarrow> filesystem \<Rightarrow> string \<Rightarrow> bytes \<Rightarrow> multipart_form option
     \<Rightarrow> filesystem \<times> response" where
  "post_entry publicRoot cwd fs bucketParam randomBytes form =
     (case upload_single publicRoot cwd fs bucketParam randomBytes form of
        (fs1, Inl err) \<Rightarrow> (fs1, default_error_response)
      | (fs1, Inr req) \<Rightarrow> post_handler publicRoot cwd fs1 req)"

section \<open>Concurrent finalisation\<close>

text \<open>
  The server runs on one event loop: every \<open>await\<close> of the deduplication block is a
  point where another request may run. One step of a request is one filesystem call of
  the block; the program counter says which call comes next.
\<close>

datatype pc = AtAccess | AtUnlink | AtMkdir | AtRename | Finished | Failed error

definition finalize_step :: "string \<Rightarrow> string \<Rightarrow> filesystem \<Rightarrow> pc \<Rightarrow> filesystem \<times> pc" where
  "finalize_step tempPath finalPath fs c =
     (case c of
        AtAccess \<Rightarrow>
          (case fs_access fs finalPath of Inl _ \<Rightarrow> (fs, AtMkdir) | Inr _ \<Rightarrow> (fs, AtUnlink))
      | AtUnlink \<Rightarrow>
          (case fs_unlink fs tempPath of Inl _ \<Rightarrow> (fs, AtMkdir) | Inr fs' \<Rightarrow> (fs', Finished))
      | AtMkdir \<Rightarrow>
          (case fs_mkdir fs (posix_dirname finalPath) of
             Inl err \<Rightarrow> (fs, Failed err) | Inr fs' \<Rightarrow> (fs', AtRename))
      | AtRename \<Rightarrow>
          (case fs_rename fs tempPath finalPath of
             Inl err \<Rightarrow> (fs, Failed err) | Inr fs' \<Rightarrow> (fs', Finished))
      | Finished \<Rightarrow> (fs, Finished)
      | Failed err \<Rightarrow> (fs, Failed err))"

text \<open>
  Two requests with the same final path and their own staged files, run under a
  schedule: \<open>False\<close> lets the first request take its next step, \<open>True\<close> the second.
\<close>

fun interleave ::
  "string \<Rightarrow> string \<Rightarrow> string \<Rightarrow> bool list \<Rightarrow> filesystem \<times> pc \<times> pc \<Rightarrow> filesystem \<times> pc \<times> pc" where
  "interleave temp1 temp2 finalPath [] cfg = cfg"
| "interleave temp1 temp2 finalPath (second # sched) (fs, c1, c2) =
     (if second then
        (case finalize_step temp2 finalPath fs c2 of
           (fs', c2') \<Rightarrow> interleave temp1 temp2 finalPath sched (fs', c1, c2'))
      else
        (case finalize_step temp1 finalPath fs c1 of
           (fs', c1') \<Rightarrow> interleave temp1 temp2 finalPath sched (fs', c1', c2)))"




section \<open>Notions used in the proofs\<close>

text \<open>A path segment that normalisation keeps as it is.\<close>

definition clean_name :: "string \<Rightarrow> bool" where
  "clean_name s = (s \<noteq> [] \<and> CHR ''/'' \<notin> set s \<and> s \<noteq> ''.'' \<and> s \<noteq> ''..'')"

text \<open>Segments written one after the other, each closed by a separator.\<close>

definition term_segs :: "string list \<Rightarrow> string" where
  "term_segs ps = concat (map (\<lambda>s. s @ ''/'') ps)"

text \<open>
  A concrete store for the examples: the public root \<open>/srv/public\<close> with the bucket
  \<open>docs\<close> and its directory \<open>a/b\<close>, and an upload of the five bytes of \<open>hello\<close>
  under the key \<open>a/b/file.txt\<close>, staged under a random name.
\<close>

definition demo_dirs :: filesystem where
  "demo_dirs = [''/'' \<mapsto> Dir, ''/srv'' \<mapsto> Dir, ''/srv/public'' \<mapsto> Dir,
                ''/srv/public/docs'' \<mapsto> Dir, ''/srv/public/docs/a'' \<mapsto> Dir,
                ''/srv/public/docs/a/b'' \<mapsto> Dir]"

definition hello :: bytes where
  "hello = [104, 101, 108, 108, 111]"

definition hello_hex :: string where
  "hello_hex = ''2cf24dba5fb0a30e26e83b2ac5b9e29e1b161e5c1fa7425e73043362938b9824''"

definition demo_saved :: string where
  "demo_saved = ''000102030405060708090a0b0c0d0e0f.txt''"

definition demo_temp :: string where
  "demo_temp = ''/srv/public/docs/a/b/000102030405060708090a0b0c0d0e0f.txt''"

definition demo_final :: string where
  "demo_final = ''/srv/public/docs/a/b/'' @ hello_hex @ ''.txt''"

definition demo_request :: upload_request where
  "demo_request =
     \<lparr>bucket = ''docs'', body = Some [''key'' \<mapsto> ''a/b/file.txt''],
      req_file = Some \<lparr>filename = demo_saved, originalname = ''file.txt'', size_bytes = 5\<rparr>\<rparr>"

text \<open>The bytes a request has staged: the file at the temporary path the handler computes.\<close>

definition staged_bytes :: "string \<Rightarrow> string \<Rightarrow> filesystem \<Rightarrow> upload_request \<Rightarrow> bytes option" where
  "staged_bytes publicRoot cwd fs req =
     (case savedFileName req of
        None \<Rightarrow> None
      | Some saved \<Rightarrow>
          (case resolveSafePath cwd publicRoot [bucket req, tempKey req saved] of
             Inl _ \<Rightarrow> None
           | Inr tempPath \<Rightarrow> (case fs tempPath of Some (File b) \<Rightarrow> Some b | _ \<Rightarrow> None)))"

definition demo_saved2 :: string where
  "demo_saved2 = ''ffeeddccbbaa99887766554433221100.txt''"

definition demo_temp2 :: string where
  "demo_temp2 = ''/srv/public/docs/a/b/ffeeddccbbaa99887766554433221100.txt''"

definition demo_request2 :: upload_request where
  "demo_request2 =
     \<lparr>bucket = ''docs'', body = Some [''Key'' \<mapsto> ''a/b/other.txt''],
      req_file = Some \<lparr>filename = demo_saved2, originalname = ''notes.txt'', size_bytes = 5\<rparr>\<rparr>"

text \<open>The same upload sent with the original file name \<open>photo.png\<close>.\<close>

definition demo_request3 :: upload_request where
  "demo_request3 =
     \<lparr>bucket = ''docs'', body = Some [''key'' \<mapsto> ''a/b/file.txt''],
      req_file = Some \<lparr>filename = demo_saved, originalname = ''photo.png'', size_bytes = 5\<rparr>\<rparr>"

definition demo_final_png :: string where
  "demo_final_png = ''/srv/public/docs/a/b/'' @ hello_hex @ ''.png''"

text \<open>
  The upload of the example as it is sent: a form with the field \<open>key\<close> ahead of the
  file part \<open>file.txt\<close>, and the sixteen random bytes that give the staged name.
\<close>

definition demo_rnd :: bytes where
  "demo_rnd = [0, 1, 2, 3, 4, 5, 6, 7, 8, 9, 10, 11, 12, 13, 14, 15]"

definition demo_form :: multipart_form where
  "demo_form =
     \<lparr>form_fields = [''key'' \<mapsto> ''a/b/file.txt''], form_early = {''key''},
      form_file = Some \<lparr>part_filename = ''file.txt'', part_content = hello\<rparr>\<rparr>"

text \<open>
  Variants of that form: the key sent after the file part, a key that climbs out of
  the public root sent after the file part, a key below \<open>c\<close>, and a second upload of
  the same bytes under the alias \<open>Key\<close> with its own random bytes. A file staged
  before its key has arrived lies in the bucket itself.
\<close>

definition demo_part :: file_part where
  "demo_part = \<lparr>part_filename = ''file.txt'', part_content = hello\<rparr>"

definition demo_form_late :: multipart_form where
  "demo_form_late = \<lparr>form_fields = [''key'' \<mapsto> ''a/b/file.txt''], form_early = {}, form_file = Some demo_part\<rparr>"

definition demo_form_escape :: multipart_form where
  "demo_form_escape = \<lparr>form_fields = [''key'' \<mapsto> ''../../x/y.txt''], form_early = {}, form_file = Some demo_part\<rparr>"

definition demo_form_c :: multipart_form where
  "demo_form_c = \<lparr>form_fields = [''key'' \<mapsto> ''c/d.txt''], form_early = {''key''}, form_file = Some demo_part\<rparr>"


definition demo_rnd2 :: bytes where
  "demo_rnd2 = [255, 238, 221, 204, 187, 170, 153, 136, 119, 102, 85, 68, 51, 34, 17, 0]"

definition demo_form2 :: multipart_form where
  "demo_form2 =
     \<lparr>form_fields = [''Key'' \<mapsto> ''a/b/other.txt''], form_early = {''Key''},
      form_file = Some \<lparr>part_filename = ''notes.txt'', part_content = hello\<rparr>\<rparr>"

text \<open>
  The logical key of a form, in the words of the specification: the field \<open>key\<close>, and
  when that field is absent or empty the field \<open>Key\<close>; empty when neither is given.
\<close>

definition logical_key :: "(string \<rightharpoonup> string) option \<Rightarrow> string" where
  "logical_key form =
     (case form of
        None \<Rightarrow> []
      | Some b \<Rightarrow>
          (case b ''key'' of
             Some k \<Rightarrow> if k \<noteq> [] then k else (case b ''Key'' of None \<Rightarrow> [] | Some k' \<Rightarrow> k')
           | None \<Rightarrow> (case b ''Key'' of None \<Rightarrow> [] | Some k' \<Rightarrow> k')))"

section \<open>Path arithmetic: normal forms and containment\<close>

text \<open>
  Normalising an absolute path leaves clean segments only, and a path written from
  clean segments splits back into them; so the prefix test on strings that
  \<open>resolveSafePath\<close> makes is the prefix test on segments.
\<close>

lemma split_sep_nonempty: "split_sep s \<noteq> []"
  by (induction s) (auto split: list.splits)

lemma split_sep_no_sep: "seg \<in> set (split_sep s) \<Longrightarrow> CHR ''/'' \<notin> set seg"
  by (induction s arbitrary: seg) (auto split: list.splits if_splits)

lemma norm_step_clean:
  "list_all clean_name res \<Longrightarrow> CHR ''/'' \<notin> set seg \<Longrightarrow> list_all clean_name (norm_step False res seg)"
  by (auto simp: clean_name_def split: list.splits)

lemma foldl_norm_clean:
  "list_all clean_name res \<Longrightarrow> \<forall>seg\<in>set segs. CHR ''/'' \<notin> set seg \<Longrightarrow>
   list_all clean_name (foldl (norm_step False) res segs)"
proof (induction segs arbitrary: res)
  case Nil then show ?case by simp
next
  case (Cons a segs)
  have "list_all clean_name (norm_step False res a)"
    using Cons.prems by (intro norm_step_clean) auto
  then show ?case using Cons by (simp del: norm_step.simps)
qed

lemma norm_segments_clean: "list_all clean_name (norm_segments False (split_sep s))"
  unfolding norm_segments_def using foldl_norm_clean[of "[]" "split_sep s"] split_sep_no_sep
  by (auto simp: list_all_iff)

lemma split_sep_plain: "CHR ''/'' \<notin> set s \<Longrightarrow> split_sep s = [s]"
  by (induction s) auto

lemma split_sep_append: "CHR ''/'' \<notin> set s \<Longrightarrow> split_sep (s @ CHR ''/'' # t) = s # split_sep t"
  by (induction s) auto

lemma split_join: "ps \<noteq> [] \<Longrightarrow> \<forall>s\<in>set ps. CHR ''/'' \<notin> set s \<Longrightarrow> split_sep (join_sep ps) = ps"
  by (induction ps rule: join_sep.induct) (auto simp: split_sep_plain split_sep_append)

lemma components_abs_join:
  "list_all clean_name ps \<Longrightarrow> path_components (CHR ''/'' # join_sep ps) = ps"
proof (cases ps)
  case Nil then show ?thesis by (simp add: path_components_def)
next
  case (Cons a list)
  assume c: "list_all clean_name ps"
  then have "split_sep (join_sep ps) = ps" using Cons
    by (intro split_join) (auto simp: clean_name_def list_all_iff)
  moreover have "filter (\<lambda>s. s \<noteq> []) ps = ps" using c by (auto simp: clean_name_def list_all_iff filter_id_conv)
  ultimately show ?thesis by (simp add: path_components_def)
qed

lemma prefix_seg:
  "CHR ''/'' \<notin> set r \<Longrightarrow> CHR ''/'' \<notin> set q \<Longrightarrow>
   prefix (r @ CHR ''/'' # X) (q @ CHR ''/'' # Y) \<longleftrightarrow> r = q \<and> prefix X Y"
proof (induction r arbitrary: q)
  case Nil then show ?case by (cases q) auto
next
  case (Cons a r) then show ?case by (cases q) auto
qed

lemma join_sep_term: "ps \<noteq> [] \<Longrightarrow> join_sep ps @ ''/'' = term_segs ps"
  by (induction ps rule: join_sep.induct) (auto simp: term_segs_def)

lemma prefix_term_segs:
  "\<forall>s\<in>set rs. CHR ''/'' \<notin> set s \<Longrightarrow> \<forall>s\<in>set ps. CHR ''/'' \<notin> set s \<Longrightarrow>
   prefix (term_segs rs) (term_segs ps) \<longleftrightarrow> prefix rs ps"
proof (induction rs arbitrary: ps)
  case Nil then show ?case by (simp add: term_segs_def)
next
  case (Cons r rs)
  show ?case
  proof (cases ps)
    case Nil then show ?thesis by (simp add: term_segs_def)
  next
    case (Cons q qs)
    have "prefix (term_segs (r # rs)) (term_segs (q # qs)) \<longleftrightarrow> r = q \<and> prefix (term_segs rs) (term_segs qs)"
      using Cons.prems Cons prefix_seg[of r q "term_segs rs" "term_segs qs"]
      by (simp add: term_segs_def)
    also have "\<dots> \<longleftrightarrow> r = q \<and> prefix rs qs"
      using Cons.IH[of qs] Cons.prems Cons by auto
    finally show ?thesis using Cons by simp
  qed
qed

lemma join_sep_last:
  "rs \<noteq> [] \<Longrightarrow> list_all clean_name rs \<Longrightarrow> join_sep rs \<noteq> [] \<and> last (join_sep rs) \<noteq> CHR ''/''"
  by (induction rs rule: join_sep.induct) (auto simp: clean_name_def dest: last_in_set)

lemma check_components:
  assumes rs: "list_all clean_name rs" and ps: "list_all clean_name ps"
  shows "startsWith ((CHR ''/'' # join_sep ps) @ ''/'')
           (if endsWithSep (CHR ''/'' # join_sep rs) then CHR ''/'' # join_sep rs else (CHR ''/'' # join_sep rs) @ ''/'')
         \<longleftrightarrow> prefix rs ps"
proof (cases rs)
  case Nil
  then show ?thesis by (simp add: endsWithSep_def startsWith_def)
next
  case (Cons r rs')
  then have ne: "rs \<noteq> []" by simp
  have nosep: "\<forall>s\<in>set rs. CHR ''/'' \<notin> set s" "\<forall>s\<in>set ps. CHR ''/'' \<notin> set s"
    using rs ps by (auto simp: clean_name_def list_all_iff)
  have noend: "\<not> endsWithSep (CHR ''/'' # join_sep rs)"
    using join_sep_last[OF ne rs] by (simp add: endsWithSep_def)
  have root: "(CHR ''/'' # join_sep rs) @ ''/'' = CHR ''/'' # term_segs rs"
    using join_sep_term[OF ne] by simp
  show ?thesis
  proof (cases ps)
    case Nil
    have "r \<noteq> []" "CHR ''/'' \<notin> set r" using rs Cons by (auto simp: clean_name_def)
    then have "\<not> prefix (term_segs rs) ''/''"
      using Cons by (cases r) (auto simp: term_segs_def)
    then show ?thesis using Nil noend root Cons by (simp add: startsWith_def)
  next
    case (Cons q qs)
    then have "(CHR ''/'' # join_sep ps) @ ''/'' = CHR ''/'' # term_segs ps"
      using join_sep_term[of ps] by simp
    then show ?thesis using noend root prefix_term_segs[OF nosep]
      by (simp add: startsWith_def)
  qed
qed

lemma resolve_loop_abs:
  "resolve_loop args acc = (rp, ab) \<Longrightarrow> \<exists>a\<in>set args. isAbsolute a \<Longrightarrow> ab"
  by (induction args acc rule: resolve_loop.induct) (auto simp: isAbsolute_def split: if_splits)

lemma resolve_abs_form:
  assumes "isAbsolute rootDir"
  shows "\<exists>ps. posix_resolve cwd [rootDir, u] = CHR ''/'' # join_sep ps \<and> list_all clean_name ps"
proof -
  obtain rp ab where r: "resolve_loop (rev [rootDir, u] @ [cwd]) [] = (rp, ab)"
    by (cases "resolve_loop (rev [rootDir, u] @ [cwd]) []") auto
  have ab using resolve_loop_abs[OF r] assms by auto
  then have "posix_resolve cwd [rootDir, u] = CHR ''/'' # join_sep (norm_segments False (split_sep rp))"
    using r by (simp add: posix_resolve_def normalizeString_def)
  then show ?thesis using norm_segments_clean by blast
qed

lemma is_resolved_form:
  assumes "is_resolved p"
  shows "\<exists>rs. p = CHR ''/'' # join_sep rs \<and> list_all clean_name rs"
proof -
  have a: "isAbsolute p" and e: "posix_resolve [] [p] = p" using assms by (auto simp: is_resolved_def)
  have "p \<noteq> []" using a by (auto simp: isAbsolute_def)
  then have "posix_resolve [] [p] = CHR ''/'' # join_sep (norm_segments False (split_sep (p @ ''/'')))"
    using a by (simp add: posix_resolve_def normalizeString_def)
  then show ?thesis using norm_segments_clean e by metis
qed

lemma check_within:
  "startsWith (p @ ''/'') (if endsWithSep rootDir then rootDir else rootDir @ ''/'') \<longleftrightarrow> within_root rootDir p"
proof (cases "endsWithSep rootDir")
  case True
  then have "rootDir = butlast rootDir @ ''/''" by (auto simp: endsWithSep_def) (metis append_butlast_last_id)
  then have "rootDir = p @ ''/'' \<longleftrightarrow> p = butlast rootDir" by (metis butlast_snoc)
  then show ?thesis using True
    by (auto simp: startsWith_def within_root_def root_with_sep_def root_without_sep_def)
next
  case False
  then show ?thesis
    by (auto simp: startsWith_def within_root_def root_with_sep_def root_without_sep_def)
qed

lemma resolveSafePath_exact:
  "resolveSafePath cwd rootDir segs =
     (let p = posix_resolve cwd [rootDir, posix_join segs]
      in if within_root rootDir p then Inr p else Inl InvalidPathError)"
  unfolding resolveSafePath_def Let_def check_within by simp

lemma foldl_norm_push:
  "list_all clean_name ps \<Longrightarrow> foldl (norm_step False) acc ps = rev ps @ acc"
  by (induction ps arbitrary: acc) (auto simp: clean_name_def)

lemma split_term_segs:
  "\<forall>s\<in>set ps. CHR ''/'' \<notin> set s \<Longrightarrow> split_sep (term_segs ps) = ps @ [[]]"
  by (induction ps) (auto simp: term_segs_def split_sep_append)

lemma form_is_resolved:
  assumes "list_all clean_name ps"
  shows "is_resolved (CHR ''/'' # join_sep ps)"
proof -
  have nosep: "\<forall>s\<in>set ps. CHR ''/'' \<notin> set s" using assms by (auto simp: clean_name_def list_all_iff)
  have "norm_segments False (split_sep ((CHR ''/'' # join_sep ps) @ ''/'')) = ps"
  proof (cases "ps = []")
    case True then show ?thesis by (simp add: norm_segments_def)
  next
    case False
    then have "split_sep ((CHR ''/'' # join_sep ps) @ ''/'') = [] # ps @ [[]]"
      using join_sep_term[OF False] split_term_segs[OF nosep] by simp
    then show ?thesis
      using foldl_norm_push[OF assms, of "[]"] by (simp add: norm_segments_def)
  qed
  then show ?thesis
    by (simp add: is_resolved_def isAbsolute_def posix_resolve_def normalizeString_def)
qed

lemma resolveSafePath_components:
  assumes "is_resolved rootDir"
  shows "resolveSafePath cwd rootDir segs =
     (let p = posix_resolve cwd [rootDir, posix_join segs]
      in if inside_root rootDir p then Inr p else Inl InvalidPathError)"
    and "is_resolved (posix_resolve cwd [rootDir, posix_join segs])"
proof -
  obtain rs where rs: "rootDir = CHR ''/'' # join_sep rs" "list_all clean_name rs"
    using is_resolved_form[OF assms] by blast
  have ab: "isAbsolute rootDir" using assms by (simp add: is_resolved_def)
  obtain ps where ps: "posix_resolve cwd [rootDir, posix_join segs] = CHR ''/'' # join_sep ps" "list_all clean_name ps"
    using resolve_abs_form[OF ab] by blast
  have "inside_root rootDir (CHR ''/'' # join_sep ps) \<longleftrightarrow> prefix rs ps"
    using rs ps by (simp add: inside_root_def components_abs_join)
  then show "resolveSafePath cwd rootDir segs =
     (let p = posix_resolve cwd [rootDir, posix_join segs]
      in if inside_root rootDir p then Inr p else Inl InvalidPathError)"
    using check_components[OF rs(2) ps(2)] rs(1) ps(1)
    by (simp add: resolveSafePath_def Let_def)
  show "is_resolved (posix_resolve cwd [rootDir, posix_join segs])"
    using ps form_is_resolved by simp
qed


section \<open>Hashing, the filesystem and the upload handler: basic facts\<close>

lemma foldl_hash_update: "foldl hash_update acc cs = acc @ concat cs"
  by (induction cs arbitrary: acc) (auto simp: hash_update_def)

lemma concat_stream_chunks: "length b \<le> n \<Longrightarrow> concat (stream_chunks n b) = b"
proof (induction n arbitrary: b)
  case 0 then show ?case by simp
next
  case (Suc n)
  show ?case
  proof (cases "b = []")
    case True then show ?thesis by simp
  next
    case False
    then have "length (drop 65536 b) \<le> n" using Suc.prems by (cases b) auto
    then have "concat (stream_chunks n (drop 65536 b)) = drop 65536 b" by (rule Suc.IH)
    then show ?thesis using False by simp
  qed
qed

lemma computeFileSha256Hex_file:
  "fs p = Some (File b) \<Longrightarrow> computeFileSha256Hex fs p = Inr (sha256_hex b)"
  by (simp add: computeFileSha256Hex_def hash_digest_hex_def foldl_hash_update concat_stream_chunks)

lemma computeFileSha256Hex_Inr:
  "computeFileSha256Hex fs p = Inr h \<Longrightarrow> \<exists>b. fs p = Some (File b) \<and> h = sha256_hex b"
  by (auto simp: computeFileSha256Hex_def hash_digest_hex_def foldl_hash_update concat_stream_chunks
      split: option.splits node.splits)

text \<open>
  Making a directory succeeds exactly when neither the directory nor one of its ancestors
  is a regular file; the error code says which of the two it was.
\<close>

lemma fs_mkdir_cases:
  "fs_mkdir fs d =
     (if list_ex (\<lambda>a. is_file (fs a)) (ancestors d)
      then Inl (IOError (if list_ex (\<lambda>a. is_file (fs a)) (parents (length d) d)
                         then ''ENOTDIR'' else ''EEXIST''))
      else Inr (\<lambda>q. if q \<in> set (ancestors d) then Some Dir else fs q))"
  by (simp add: fs_mkdir_def ancestors_def)

lemma fs_mkdir_keeps_files:
  "fs_mkdir fs d = Inr fs1 \<Longrightarrow> is_file (fs p) \<Longrightarrow> fs1 p = fs p"
  by (auto simp: fs_mkdir_cases list_ex_iff split: if_splits)

lemma fs_mkdir_dir: "fs_mkdir fs d = Inr fs1 \<Longrightarrow> fs1 d = Some Dir"
  by (auto simp: fs_mkdir_cases ancestors_def split: if_splits)

lemma fs_mkdir_other: "fs_mkdir fs d = Inr fs1 \<Longrightarrow> fs1 q = fs q \<or> fs1 q = Some Dir"
  by (auto simp: fs_mkdir_cases split: if_splits)

lemma dedup_existing:
  assumes "fs tempPath = Some (File b)" "fs finalPath = Some n"
  shows "dedup_finalize fs tempPath finalPath = (fs(tempPath := None), None)"
  using assms by (simp add: dedup_finalize_def fs_access_def fs_unlink_def)

lemma dedup_absent:
  assumes t: "fs tempPath = Some (File b)" and f: "fs finalPath = None"
    and m: "fs_mkdir fs (posix_dirname finalPath) = Inr fs1" and f1: "fs1 finalPath = None"
  shows "dedup_finalize fs tempPath finalPath = (fs1(tempPath := None, finalPath \<mapsto> File b), None)"
proof -
  have t1: "fs1 tempPath = Some (File b)"
    using fs_mkdir_keeps_files[OF m, of tempPath] t by (simp add: is_file_def)
  have d: "fs1 (posix_dirname finalPath) = Some Dir" using m by (rule fs_mkdir_dir)
  show ?thesis using f m t1 d f1
    by (simp add: dedup_finalize_def dedup_rename_def fs_access_def fs_rename_def)
qed

lemma dedup_success_state:
  assumes t: "fs tempPath = Some (File b)" and ne: "tempPath \<noteq> finalPath"
    and f: "fs finalPath = None \<or> is_file (fs finalPath)"
    and r: "dedup_finalize fs tempPath finalPath = (fs', None)"
  shows "is_file (fs' finalPath) \<and> fs' tempPath = None"
proof (cases "fs finalPath")
  case None
  then show ?thesis using r t ne
    by (auto simp: dedup_finalize_def dedup_rename_def fs_access_def fs_rename_def is_file_def
        split: sum.splits option.splits node.splits if_splits)
next
  case (Some n)
  then show ?thesis using r t ne f dedup_existing[where fs=fs, OF t Some] by (auto simp: is_file_def)
qed

lemma post_handler_staged:
  assumes "savedFileName req = Some saved" "saved \<noteq> []"
    and "resolveSafePath cwd root [bucket req, tempKey req saved] = Inr tempPath"
    and "fs tempPath = Some (File b)"
    and "resolveSafePath cwd root [bucket req, finalKey req (sha256_hex b)] = Inr finalPath"
  shows "post_handler root cwd fs req =
     (case dedup_finalize fs tempPath finalPath of
        (fs', Some err) \<Rightarrow> (fs', error_response 400 (message err))
      | (fs', None) \<Rightarrow> (fs', post_success req (sha256_hex b) finalPath))"
  using assms by (simp add: post_handler_def js_or_def computeFileSha256Hex_file)

lemma post_handler_200:
  assumes "post_handler root cwd fs req = (fs', r)" "status r = 200"
  shows "\<exists>saved tempPath b finalPath.
           savedFileName req = Some saved \<and> saved \<noteq> []
         \<and> resolveSafePath cwd root [bucket req, tempKey req saved] = Inr tempPath
         \<and> fs tempPath = Some (File b)
         \<and> resolveSafePath cwd root [bucket req, finalKey req (sha256_hex b)] = Inr finalPath
         \<and> dedup_finalize fs tempPath finalPath = (fs', None)
         \<and> r = post_success req (sha256_hex b) finalPath"
proof -
  obtain saved where s: "savedFileName req = Some saved" "saved \<noteq> []"
    using assms by (auto simp: post_handler_def js_or_def error_response_def split: option.splits if_splits)
  obtain tempPath where t: "resolveSafePath cwd root [bucket req, tempKey req saved] = Inr tempPath"
    using assms s by (auto simp: post_handler_def js_or_def error_response_def split: sum.splits)
  obtain h where h: "computeFileSha256Hex fs tempPath = Inr h"
    using assms s t by (auto simp: post_handler_def js_or_def error_response_def split: sum.splits)
  obtain b where b: "fs tempPath = Some (File b)" "h = sha256_hex b"
    using computeFileSha256Hex_Inr[OF h] by blast
  obtain finalPath where f: "resolveSafePath cwd root [bucket req, finalKey req (sha256_hex b)] = Inr finalPath"
    using assms s t h b by (auto simp: post_handler_def js_or_def error_response_def split: sum.splits)
  have "dedup_finalize fs tempPath finalPath = (fs', None) \<and> r = post_success req (sha256_hex b) finalPath"
    using assms s t b(1) f post_handler_staged[where fs=fs and req=req and saved=saved and tempPath=tempPath and b=b and finalPath=finalPath and cwd=cwd and root=root]
    by (cases "dedup_finalize fs tempPath finalPath")
       (auto simp: error_response_def split: option.splits)
  then show ?thesis using s t b f by blast
qed

section \<open>C1: containment of resolved paths\<close>

text \<open>
  Claim C1. For every root, bucket and key segments, \<open>resolveSafePath\<close> returns the
  lexically normalised absolute path exactly when that path equals the root or is a
  separator-bounded descendant of it, and fails with \<open>InvalidPathError\<close> otherwise.
  First conjunct: for every root, the answer is the resolved path when it is the root
  (written with or without its trailing separator) or starts with the root followed by
  a separator, and the error otherwise. Second conjunct: for a root in normal form this
  is containment of path components, and the returned path is absolute and in normal
  form. Third conjunct: a resolved path that merely continues the root's last
  component, a sibling such as \<open>/data/abc\<close> against \<open>/data/ab\<close>, is rejected. The
  function takes no filesystem and returns none: it is path arithmetic only.
\<close>

theorem resolveSafePath_containment:
  "resolveSafePath cwd rootDir segments =
     (let p = posix_resolve cwd [rootDir, posix_join segments]
      in if within_root rootDir p then Inr p else Inl InvalidPathError)
   \<and> (is_resolved rootDir \<longrightarrow>
        resolveSafePath cwd rootDir segments =
          (let p = posix_resolve cwd [rootDir, posix_join segments]
           in if inside_root rootDir p then Inr p else Inl InvalidPathError)
        \<and> is_resolved (posix_resolve cwd [rootDir, posix_join segments]))
   \<and> (\<not> endsWithSep rootDir \<and> s \<noteq> [] \<and> hd s \<noteq> CHR ''/''
        \<and> posix_resolve cwd [rootDir, posix_join segments] = rootDir @ s \<longrightarrow>
        resolveSafePath cwd rootDir segments = Inl InvalidPathError)"
proof (intro conjI impI)
  show "resolveSafePath cwd rootDir segments =
     (let p = posix_resolve cwd [rootDir, posix_join segments]
      in if within_root rootDir p then Inr p else Inl InvalidPathError)"
    by (rule resolveSafePath_exact)
next
  assume "is_resolved rootDir"
  then show "resolveSafePath cwd rootDir segments =
          (let p = posix_resolve cwd [rootDir, posix_join segments]
           in if inside_root rootDir p then Inr p else Inl InvalidPathError)"
    by (rule resolveSafePath_components(1))
next
  assume "is_resolved rootDir"
  then show "is_resolved (posix_resolve cwd [rootDir, posix_join segments])"
    by (rule resolveSafePath_components(2))
next
  assume a: "\<not> endsWithSep rootDir \<and> s \<noteq> [] \<and> hd s \<noteq> CHR ''/''
        \<and> posix_resolve cwd [rootDir, posix_join segments] = rootDir @ s"
  then have "\<not> prefix ''/'' s" by (cases s) auto
  then have "\<not> within_root rootDir (rootDir @ s)"
    using a by (simp add: within_root_def root_with_sep_def root_without_sep_def)
  then show "resolveSafePath cwd rootDir segments = Inl InvalidPathError"
    using a resolveSafePath_exact[of cwd rootDir segments] by simp
qed

text \<open>The sibling \<open>/data/abc\<close>, reached from the root \<open>/data/ab\<close> through \<open>..\<close>, is rejected.\<close>

lemma root_ab_resolved: "is_resolved ''/data/ab''" by code_simp
lemma sibling_resolved: "posix_resolve ''/srv'' [''/data/ab'', posix_join [''..'', ''abc'']] = ''/data/abc''" by code_simp
lemma sibling_not_inside: "\<not> inside_root ''/data/ab'' ''/data/abc''" by code_simp
lemma root_ab_no_sep: "\<not> endsWithSep ''/data/ab''" by code_simp

text \<open>A key with an inner \<open>..\<close> that stays below the root is accepted.\<close>

lemma inside_resolved:
  "posix_resolve ''/srv'' [''/data/ab'', posix_join [''docs'', ''a/../b.txt'']] = ''/data/ab/docs/b.txt''
   \<and> inside_root ''/data/ab'' ''/data/ab/docs/b.txt''"
  by code_simp

theorem resolveSafePath_containment_witness:
  "is_resolved ''/data/ab''
   \<and> \<not> endsWithSep ''/data/ab''
   \<and> posix_resolve ''/srv'' [''/data/ab'', posix_join [''..'', ''abc'']] = ''/data/ab'' @ ''c''
   \<and> \<not> inside_root ''/data/ab'' ''/data/abc''
   \<and> resolveSafePath ''/srv'' ''/data/ab'' [''..'', ''abc''] = Inl InvalidPathError
   \<and> is_resolved (posix_resolve ''/srv'' [''/data/ab'', posix_join [''..'', ''abc'']])
   \<and> inside_root ''/data/ab'' ''/data/ab/docs/b.txt''
   \<and> resolveSafePath ''/srv'' ''/data/ab'' [''docs'', ''a/../b.txt''] = Inr ''/data/ab/docs/b.txt''"
proof -
  note t = resolveSafePath_containment[of "''/srv''" "''/data/ab''" "[''..'', ''abc'']" "''c''"]
  note u = resolveSafePath_containment[of "''/srv''" "''/data/ab''" "[''docs'', ''a/../b.txt'']" "''c''"]
  have h: "\<not> endsWithSep ''/data/ab'' \<and> ''c'' \<noteq> [] \<and> hd ''c'' \<noteq> CHR ''/''
        \<and> posix_resolve ''/srv'' [''/data/ab'', posix_join [''..'', ''abc'']] = ''/data/ab'' @ ''c''"
    using sibling_resolved root_ab_no_sep by simp
  have r: "resolveSafePath ''/srv'' ''/data/ab'' [''..'', ''abc''] = Inl InvalidPathError"
    using t h by blast
  have n: "is_resolved (posix_resolve ''/srv'' [''/data/ab'', posix_join [''..'', ''abc'']])"
    using t root_ab_resolved by blast
  have "resolveSafePath ''/srv'' ''/data/ab'' [''docs'', ''a/../b.txt''] =
          (let p = posix_resolve ''/srv'' [''/data/ab'', posix_join [''docs'', ''a/../b.txt'']]
           in if inside_root ''/data/ab'' p then Inr p else Inl InvalidPathError)"
    using u root_ab_resolved by blast
  then have a: "resolveSafePath ''/srv'' ''/data/ab'' [''docs'', ''a/../b.txt''] = Inr ''/data/ab/docs/b.txt''"
    using inside_resolved by (simp add: Let_def)
  show ?thesis using root_ab_resolved sibling_not_inside h r n a inside_resolved by blast
qed

section \<open>The example store, evaluated\<close>

text \<open>The digest of \<open>hello\<close>, computed by the model, is the published one.\<close>

lemma sha256_hex_hello: "sha256_hex hello = hello_hex"
  by code_simp

text \<open>
  A message of 56 bytes, the second example of FIPS 180-4 for SHA-256
  (\<open>abcdbcdecdef...nopq\<close>), is padded to two blocks.
\<close>

lemma sha256_hex_two_blocks:
  "sha256_hex [97, 98, 99, 100, 98, 99, 100, 101, 99, 100, 101, 102, 100, 101, 102, 103, 101, 102, 103, 104, 102, 103, 104, 105, 103, 104, 105, 106, 104, 105, 106, 107, 105, 106, 107, 108, 106, 107, 108, 109, 107, 108, 109, 110, 108, 109, 110, 111, 109, 110, 111, 112, 110, 111, 112, 113]
     = ''248d6a61d20638b8e5c026930c3e6039a33ce45964ff2167f6ecedd419db06c1''"
  by code_simp

lemma demo_saved_name: "savedFileName demo_request = Some demo_saved \<and> demo_saved \<noteq> []"
  by (simp add: savedFileName_def demo_request_def demo_saved_def)

lemma demo_temp_resolved:
  "resolveSafePath ''/'' ''/srv/public'' [bucket demo_request, tempKey demo_request demo_saved] = Inr demo_temp"
  by code_simp

lemma demo_final_resolved:
  "resolveSafePath ''/'' ''/srv/public'' [bucket demo_request, finalKey demo_request hello_hex] = Inr demo_final"
  by code_simp

lemma demo_temp_final: "demo_temp \<noteq> demo_final"
  by code_simp

lemma demo_final_dirname: "posix_dirname demo_final = ''/srv/public/docs/a/b''"
  by code_simp

lemma demo_ancestors: "ancestors ''/srv/public/docs/a/b'' =
  [''/srv/public/docs/a/b'', ''/srv/public/docs/a'', ''/srv/public/docs'', ''/srv/public'', ''/srv'', ''/'']"
  by code_simp


lemma demo_mkdir:
  "fs_mkdir (demo_dirs(demo_temp \<mapsto> File hello)) (posix_dirname demo_final) = Inr (demo_dirs(demo_temp \<mapsto> File hello))"
proof -
  have t: "demo_temp \<notin> set (ancestors ''/srv/public/docs/a/b'')"
    unfolding demo_ancestors by (simp add: demo_temp_def)
  have "\<not> list_ex (\<lambda>a. is_file ((demo_dirs(demo_temp \<mapsto> File hello)) a)) (ancestors ''/srv/public/docs/a/b'')"
    unfolding demo_ancestors by (simp add: demo_dirs_def demo_temp_def is_file_def)
  moreover have "(\<lambda>q. if q \<in> set (ancestors ''/srv/public/docs/a/b'') then Some Dir
                      else (demo_dirs(demo_temp \<mapsto> File hello)) q) = demo_dirs(demo_temp \<mapsto> File hello)"
    unfolding demo_ancestors by (auto simp: fun_eq_iff demo_dirs_def demo_temp_def)
  ultimately show ?thesis by (simp add: fs_mkdir_cases demo_final_dirname)
qed

lemma demo_final_absent: "(demo_dirs(demo_temp \<mapsto> File hello)) demo_final = None"
  using demo_temp_final by (simp add: demo_dirs_def demo_final_def hello_hex_def)

section \<open>C4: the content fingerprint and the address it gives\<close>

text \<open>
  The hexadecimal rendering has eight digits for each word, all of them lowercase.
\<close>

lemma nibble_bound: "unat ((n::32 word) AND 0xF) < 16"
proof -
  have "n AND 0xF = n AND mask 4" by (simp add: mask_eq_exp_minus_1)
  moreover have "n AND mask 4 < 2 ^ 4" by (rule and_mask_less_size) (simp add: word_size)
  ultimately have "n AND 0xF < 16" by simp
  then show ?thesis by (simp add: word_less_nat_alt)
qed

lemma hex_digit_in: "hex_digit n \<in> set ''0123456789abcdef''"
proof -
  have "''0123456789abcdef'' ! unat (n AND 0xF) \<in> set ''0123456789abcdef''"
    by (rule nth_mem) (use nibble_bound[of n] in simp)
  then show ?thesis by (simp only: hex_digit_def)
qed

lemma hex32_facts: "length (hex32 w) = 8 \<and> set (hex32 w) \<subseteq> set ''0123456789abcdef''"
  unfolding hex32_def using hex_digit_in by auto

lemma sha256_hex_facts:
  "length (sha256_hex m) = 64 \<and> set (sha256_hex m) \<subseteq> set ''0123456789abcdef''"
proof -
  obtain a b c d e f g h where s: "sha256 m = (a, b, c, d, e, f, g, h)"
    by (cases "sha256 m") auto
  show ?thesis
    unfolding sha256_hex_def s hex_state.simps
    using hex32_facts[of a] hex32_facts[of b] hex32_facts[of c] hex32_facts[of d]
      hex32_facts[of e] hex32_facts[of f] hex32_facts[of g] hex32_facts[of h]
    by (simp del: set_simps)
qed

lemma demo_post_dedup:
  "post_handler ''/srv/public'' ''/'' (demo_dirs(demo_temp \<mapsto> File hello, demo_final \<mapsto> File hello)) demo_request
     = ((demo_dirs(demo_temp \<mapsto> File hello, demo_final \<mapsto> File hello))(demo_temp := None),
        post_success demo_request hello_hex demo_final)"
proof -
  let ?fsA = "demo_dirs(demo_temp \<mapsto> File hello, demo_final \<mapsto> File hello)"
  have tA: "?fsA demo_temp = Some (File hello)" using demo_temp_final by simp
  have fA: "?fsA demo_final = Some (File hello)" by simp
  have d: "dedup_finalize ?fsA demo_temp demo_final = (?fsA(demo_temp := None), None)"
    using dedup_existing[where fs="?fsA", OF tA fA] .
  have f: "resolveSafePath ''/'' ''/srv/public'' [bucket demo_request, finalKey demo_request (sha256_hex hello)] = Inr demo_final"
    unfolding sha256_hex_hello by (rule demo_final_resolved)
  show ?thesis
    using post_handler_staged[where fs="?fsA" and req=demo_request and saved=demo_saved and tempPath=demo_temp
          and b=hello and finalPath=demo_final and cwd="''/''" and root="''/srv/public''"]
      demo_saved_name demo_temp_resolved f tA d by (simp add: sha256_hex_hello)
qed

lemma demo2_saved_name: "savedFileName demo_request2 = Some demo_saved2 \<and> demo_saved2 \<noteq> []"
  by (simp add: savedFileName_def demo_request2_def demo_saved2_def)

lemma demo2_temp_resolved:
  "resolveSafePath ''/'' ''/srv/public'' [bucket demo_request2, tempKey demo_request2 demo_saved2] = Inr demo_temp2"
  by code_simp

lemma demo2_final_resolved:
  "resolveSafePath ''/'' ''/srv/public'' [bucket demo_request2, finalKey demo_request2 hello_hex] = Inr demo_final"
  by code_simp

lemma demo2_temp_final: "demo_temp2 \<noteq> demo_final"
  by code_simp

lemma demo2_mkdir:
  "fs_mkdir (demo_dirs(demo_temp2 \<mapsto> File hello)) (posix_dirname demo_final) = Inr (demo_dirs(demo_temp2 \<mapsto> File hello))"
proof -
  have "\<not> list_ex (\<lambda>a. is_file ((demo_dirs(demo_temp2 \<mapsto> File hello)) a)) (ancestors ''/srv/public/docs/a/b'')"
    unfolding demo_ancestors by (simp add: demo_dirs_def demo_temp2_def is_file_def)
  moreover have "(\<lambda>q. if q \<in> set (ancestors ''/srv/public/docs/a/b'') then Some Dir
                      else (demo_dirs(demo_temp2 \<mapsto> File hello)) q) = demo_dirs(demo_temp2 \<mapsto> File hello)"
    unfolding demo_ancestors by (auto simp: fun_eq_iff demo_dirs_def demo_temp2_def)
  ultimately show ?thesis by (simp add: fs_mkdir_cases demo_final_dirname)
qed

lemma demo2_post_fresh:
  "post_handler ''/srv/public'' ''/'' (demo_dirs(demo_temp2 \<mapsto> File hello)) demo_request2
     = ((demo_dirs(demo_temp2 \<mapsto> File hello))(demo_temp2 := None, demo_final \<mapsto> File hello),
        post_success demo_request2 hello_hex demo_final)"
proof -
  let ?fsB = "demo_dirs(demo_temp2 \<mapsto> File hello)"
  have t: "?fsB demo_temp2 = Some (File hello)" by simp
  have a: "?fsB demo_final = None"
    using demo2_temp_final by (simp add: demo_dirs_def demo_final_def hello_hex_def)
  have d: "dedup_finalize ?fsB demo_temp2 demo_final = (?fsB(demo_temp2 := None, demo_final \<mapsto> File hello), None)"
    using dedup_absent[where fs="?fsB", OF t a demo2_mkdir a] .
  have f: "resolveSafePath ''/'' ''/srv/public'' [bucket demo_request2, finalKey demo_request2 (sha256_hex hello)] = Inr demo_final"
    unfolding sha256_hex_hello by (rule demo2_final_resolved)
  show ?thesis
    using post_handler_staged[where fs="?fsB" and req=demo_request2 and saved=demo_saved2 and tempPath=demo_temp2
          and b=hello and finalPath=demo_final and cwd="''/''" and root="''/srv/public''"]
      demo2_saved_name demo2_temp_resolved f t d by (simp add: sha256_hex_hello)
qed

lemma staged_bytes_200:
  assumes "post_handler root cwd fs req = (fs', r)" "status r = 200"
  shows "\<exists>b finalPath. staged_bytes root cwd fs req = Some b
          \<and> resolveSafePath cwd root [bucket req, finalKey req (sha256_hex b)] = Inr finalPath
          \<and> r = post_success req (sha256_hex b) finalPath"
proof -
  obtain saved tempPath b finalPath where
      "savedFileName req = Some saved" "resolveSafePath cwd root [bucket req, tempKey req saved] = Inr tempPath"
      "fs tempPath = Some (File b)"
      "resolveSafePath cwd root [bucket req, finalKey req (sha256_hex b)] = Inr finalPath"
      "r = post_success req (sha256_hex b) finalPath"
    using post_handler_200[OF assms] by blast
  then show ?thesis by (auto simp: staged_bytes_def)
qed

text \<open>
  Claim C4. The fingerprint of a file is its SHA-256 digest written as 64 lowercase
  hexadecimal characters, and depends on the bytes alone: whatever the path, the rest of
  the store and the chunks the stream delivers, hashing a file with bytes \<open>m\<close> gives
  \<open>sha256_hex m\<close>. Two successful hashed uploads with the same staged bytes, the same
  extension, the same bucket and the same directory report the same final path, the same
  key and the same fingerprint.
\<close>

theorem fingerprint_content_addressing:
  "length (sha256_hex m) = 64 \<and> set (sha256_hex m) \<subseteq> set ''0123456789abcdef''
   \<and> (fs p = Some (File m) \<longrightarrow> computeFileSha256Hex fs p = Inr (sha256_hex m))
   \<and> (post_handler root cwd fs1 req1 = (fs1', r1) \<and> status r1 = 200
        \<and> post_handler root cwd fs2 req2 = (fs2', r2) \<and> status r2 = 200
        \<and> bucket req1 = bucket req2 \<and> finalDir req1 = finalDir req2 \<and> ext req1 = ext req2
        \<and> staged_bytes root cwd fs1 req1 = staged_bytes root cwd fs2 req2 \<longrightarrow>
        map_of (json r1) ''path'' = map_of (json r2) ''path''
        \<and> map_of (json r1) ''key'' = map_of (json r2) ''key''
        \<and> map_of (json r1) ''sha256'' = map_of (json r2) ''sha256''
        \<and> (\<exists>b. staged_bytes root cwd fs1 req1 = Some b
                \<and> map_of (json r1) ''sha256'' = Some (JString (sha256_hex b))))"
proof (intro conjI impI)
  show "length (sha256_hex m) = 64" using sha256_hex_facts by blast
  show "set (sha256_hex m) \<subseteq> set ''0123456789abcdef''" using sha256_hex_facts by blast
  show "fs p = Some (File m) \<Longrightarrow> computeFileSha256Hex fs p = Inr (sha256_hex m)"
    by (rule computeFileSha256Hex_file)
next
  assume a: "post_handler root cwd fs1 req1 = (fs1', r1) \<and> status r1 = 200
        \<and> post_handler root cwd fs2 req2 = (fs2', r2) \<and> status r2 = 200
        \<and> bucket req1 = bucket req2 \<and> finalDir req1 = finalDir req2 \<and> ext req1 = ext req2
        \<and> staged_bytes root cwd fs1 req1 = staged_bytes root cwd fs2 req2"
  obtain b1 p1 where 1: "staged_bytes root cwd fs1 req1 = Some b1"
      "resolveSafePath cwd root [bucket req1, finalKey req1 (sha256_hex b1)] = Inr p1"
      "r1 = post_success req1 (sha256_hex b1) p1"
    using staged_bytes_200[of root cwd fs1 req1 fs1' r1] a by blast
  obtain b2 p2 where 2: "staged_bytes root cwd fs2 req2 = Some b2"
      "resolveSafePath cwd root [bucket req2, finalKey req2 (sha256_hex b2)] = Inr p2"
      "r2 = post_success req2 (sha256_hex b2) p2"
    using staged_bytes_200[of root cwd fs2 req2 fs2' r2] a by blast
  have b: "b1 = b2" using a 1 2 by simp
  have fd: "finalDir req1 = finalDir req2" and fe: "ext req1 = ext req2" using a by blast+
  have k: "finalKey req1 (sha256_hex b1) = finalKey req2 (sha256_hex b2)"
    unfolding finalKey_def fd fe b ..
  have p: "p1 = p2" using 1(2) 2(2) k a by simp
  show "map_of (json r1) ''path'' = map_of (json r2) ''path''"
    using 1 2 p by (simp add: post_success_def)
  show "map_of (json r1) ''key'' = map_of (json r2) ''key''"
    using 1 2 k by (simp add: post_success_def)
  show "map_of (json r1) ''sha256'' = map_of (json r2) ''sha256''"
    using 1 2 b by (simp add: post_success_def)
  show "\<exists>b. staged_bytes root cwd fs1 req1 = Some b
                \<and> map_of (json r1) ''sha256'' = Some (JString (sha256_hex b))"
    using 1 by (simp add: post_success_def)
qed

text \<open>
  Two uploads of \<open>hello\<close> into \<open>docs/a/b\<close> under different keys and temporary names,
  one finding the object in place and one creating it.
\<close>

lemma demo_same_address:
  "bucket demo_request = bucket demo_request2 \<and> finalDir demo_request = finalDir demo_request2
   \<and> ext demo_request = ext demo_request2 \<and> fullKey demo_request \<noteq> fullKey demo_request2"
  by code_simp

lemma demo_staged_bytes:
  "staged_bytes ''/srv/public'' ''/'' (demo_dirs(demo_temp \<mapsto> File hello, demo_final \<mapsto> File hello)) demo_request = Some hello
   \<and> staged_bytes ''/srv/public'' ''/'' (demo_dirs(demo_temp2 \<mapsto> File hello)) demo_request2 = Some hello"
  using demo_saved_name demo2_saved_name demo_temp_resolved demo2_temp_resolved demo_temp_final
  by (simp add: staged_bytes_def)

theorem fingerprint_content_addressing_witness:
  "(demo_dirs(demo_temp \<mapsto> File hello)) demo_temp = Some (File hello)
   \<and> computeFileSha256Hex (demo_dirs(demo_temp \<mapsto> File hello)) demo_temp = Inr hello_hex
   \<and> length hello_hex = 64
   \<and> fullKey demo_request \<noteq> fullKey demo_request2
   \<and> status (post_success demo_request hello_hex demo_final) = 200
   \<and> status (post_success demo_request2 hello_hex demo_final) = 200
   \<and> map_of (json (post_success demo_request hello_hex demo_final)) ''path''
       = map_of (json (post_success demo_request2 hello_hex demo_final)) ''path''
   \<and> map_of (json (post_success demo_request hello_hex demo_final)) ''key''
       = map_of (json (post_success demo_request2 hello_hex demo_final)) ''key''"
proof -
  let ?fsA = "demo_dirs(demo_temp \<mapsto> File hello, demo_final \<mapsto> File hello)"
  let ?fsB = "demo_dirs(demo_temp2 \<mapsto> File hello)"
  let ?fsC = "demo_dirs(demo_temp \<mapsto> File hello)"
  note T = fingerprint_content_addressing[of hello ?fsC demo_temp "''/srv/public''" "''/''" ?fsA demo_request
      "?fsA(demo_temp := None)" "post_success demo_request hello_hex demo_final"
      ?fsB demo_request2 "?fsB(demo_temp2 := None, demo_final \<mapsto> File hello)"
      "post_success demo_request2 hello_hex demo_final"]
  have c: "?fsC demo_temp = Some (File hello)" by simp
  have s: "status (post_success demo_request hello_hex demo_final) = 200"
      "status (post_success demo_request2 hello_hex demo_final) = 200"
    by (simp_all add: post_success_def)
  have h: "computeFileSha256Hex ?fsC demo_temp = Inr hello_hex"
    using T c unfolding sha256_hex_hello by blast
  have l: "length hello_hex = 64" using T unfolding sha256_hex_hello by blast
  have e: "map_of (json (post_success demo_request hello_hex demo_final)) ''path''
       = map_of (json (post_success demo_request2 hello_hex demo_final)) ''path''
     \<and> map_of (json (post_success demo_request hello_hex demo_final)) ''key''
       = map_of (json (post_success demo_request2 hello_hex demo_final)) ''key''"
    using T demo_post_dedup demo2_post_fresh s demo_same_address demo_staged_bytes by simp
  show ?thesis using c s h l e demo_same_address by blast
qed


section \<open>C5: the name of the final object\<close>

text \<open>
  The last segment of a joined path: a clean name joined after a directory stays the
  last segment, as it is written.
\<close>

lemma split_sep_app: "split_sep (d @ CHR ''/'' # t) = split_sep d @ split_sep t"
proof (induction d)
  case Nil then show ?case by simp
next
  case (Cons c d)
  then show ?case using split_sep_nonempty[of d] by (cases "split_sep d") auto
qed

lemma norm_step_clean_name: "clean_name n \<Longrightarrow> norm_step a res n = n # res"
  by (simp add: clean_name_def)

lemma norm_segments_snoc:
  "clean_name n \<Longrightarrow> norm_segments a (segs @ [n]) = norm_segments a segs @ [n]"
  by (simp add: norm_segments_def norm_step_clean_name del: norm_step.simps)

lemma join_sep_snoc: "join_sep (xs @ [n]) = (if xs = [] then n else join_sep xs @ CHR ''/'' # n)"
  by (induction xs rule: join_sep.induct) auto

lemma posix_join_leaf:
  assumes d: "d \<noteq> []" and n: "clean_name n"
  shows "\<exists>pre. posix_join [d, n] = pre @ n \<and> (pre = [] \<or> last pre = CHR ''/'')"
proof -
  have nn: "n \<noteq> []" "CHR ''/'' \<notin> set n" using n by (auto simp: clean_name_def)
  let ?p = "d @ CHR ''/'' # n"
  let ?a = "isAbsolute ?p"
  let ?xs = "norm_segments (\<not> ?a) (split_sep d)"
  have j: "posix_join [d, n] = posix_normalize ?p" using d nn by (simp add: posix_join_def)
  have sp: "split_sep ?p = split_sep d @ [n]" using nn by (simp add: split_sep_app split_sep_plain)
  have ns: "normalizeString ?p (\<not> ?a) = (if ?xs = [] then n else join_sep ?xs @ CHR ''/'' # n)"
    by (simp add: normalizeString_def sp norm_segments_snoc[OF n] join_sep_snoc)
  have tr: "\<not> endsWithSep ?p" using nn by (auto simp: endsWithSep_def dest: last_in_set)
  have ne: "normalizeString ?p (\<not> ?a) \<noteq> []" using ns nn by auto
  have "posix_normalize ?p = (if ?a then ''/'' else []) @ (if ?xs = [] then [] else join_sep ?xs @ ''/'') @ n"
    using tr ne ns by (simp add: posix_normalize_def Let_def)
  then show ?thesis using j
    by (intro exI[of _ "(if ?a then ''/'' else []) @ (if ?xs = [] then [] else join_sep ?xs @ ''/'')"]) auto
qed

lemma posix_extname_no_sep: "CHR ''/'' \<notin> set (posix_extname x)"
proof -
  let ?base = "rev (takeWhile (\<lambda>c. c \<noteq> CHR ''/'') (dropWhile (\<lambda>c. c = CHR ''/'') (rev x)))"
  have b: "CHR ''/'' \<notin> set ?base" by (auto dest: set_takeWhileD)
  have "set (rev (takeWhile (\<lambda>c. c \<noteq> CHR ''.'') (rev ?base))) \<subseteq> set ?base"
    by (auto dest: set_takeWhileD)
  then show ?thesis using b by (auto simp: posix_extname_def Let_def)
qed

lemma hashed_name_clean: "clean_name (sha256_hex b @ posix_extname x)"
proof -
  have l: "length (sha256_hex b) = 64" and h: "set (sha256_hex b) \<subseteq> set ''0123456789abcdef''"
    using sha256_hex_facts by blast+
  have "CHR ''/'' \<notin> set (sha256_hex b)" using h by auto
  moreover have "sha256_hex b @ posix_extname x \<noteq> [] \<and> sha256_hex b @ posix_extname x \<noteq> ''.''
      \<and> sha256_hex b @ posix_extname x \<noteq> ''..''"
  proof -
    have "length s \<ge> 64 \<Longrightarrow> s \<noteq> [] \<and> s \<noteq> ''.'' \<and> s \<noteq> ''..''" for s :: string
      by auto
    then show ?thesis using l by simp
  qed
  ultimately show ?thesis using posix_extname_no_sep by (auto simp: clean_name_def)
qed

lemma finalKey_leaf:
  "\<exists>pre. finalKey req (sha256_hex b) = pre @ sha256_hex b @ ext req
         \<and> (pre = [] \<or> last pre = CHR ''/'') \<and> (finalDir req = [] \<longrightarrow> pre = [])"
proof (cases "finalDir req = []")
  case True
  then show ?thesis by (simp add: finalKey_def)
next
  case False
  have c: "clean_name (sha256_hex b @ ext req)" unfolding ext_def by (rule hashed_name_clean)
  obtain pre where "posix_join [finalDir req, sha256_hex b @ ext req] = pre @ sha256_hex b @ ext req"
      "pre = [] \<or> last pre = CHR ''/''"
    using posix_join_leaf[OF False c] by auto
  then show ?thesis using False by (auto simp: finalKey_def)
qed

lemma ext_source:
  "ext req = posix_extname (case req_file req of
                              None \<Rightarrow> fullKey req
                            | Some f \<Rightarrow> if originalname f \<noteq> [] then originalname f else fullKey req)"
  by (simp add: ext_def js_or_def js_String_def split: option.splits)

text \<open>
  Claim C5, as amended. For every successful hashed upload the key reported is a
  directory prefix (empty, or ending in a separator; empty when the logical key has no
  directory) followed by the leaf name, and the leaf name is the fingerprint of the
  staged bytes followed by the extension; nothing else of the logical key's leaf enters
  the name. The extension is that of the original file name when that name is not
  empty, and that of the logical key otherwise. When both the logical key and the
  original file name are empty the name is the bare fingerprint.
\<close>

theorem final_name_from_content_and_extension:
  "(post_handler root cwd fs req = (fs', r) \<and> status r = 200 \<longrightarrow>
      (\<exists>b pre. staged_bytes root cwd fs req = Some b
         \<and> map_of (json r) ''key'' = Some (JString (pre @ sha256_hex b @ ext req))
         \<and> (pre = [] \<or> last pre = CHR ''/'')
         \<and> CHR ''/'' \<notin> set (sha256_hex b @ ext req)
         \<and> (finalDir req = [] \<longrightarrow> pre = [])))
   \<and> finalKey req sha =
        (if finalDir req \<noteq> [] then posix_join [finalDir req, sha @ ext req] else sha @ ext req)
   \<and> ext req = posix_extname (case req_file req of
                                 None \<Rightarrow> fullKey req
                               | Some f \<Rightarrow> if originalname f \<noteq> [] then originalname f else fullKey req)
   \<and> (fullKey req = [] \<and> (\<forall>f. req_file req = Some f \<longrightarrow> originalname f = []) \<longrightarrow>
        ext req = [] \<and> finalDir req = [] \<and> finalKey req sha = sha)"
proof (intro conjI impI)
  assume a: "post_handler root cwd fs req = (fs', r) \<and> status r = 200"
  obtain b finalPath where b: "staged_bytes root cwd fs req = Some b"
      "r = post_success req (sha256_hex b) finalPath"
    using staged_bytes_200[of root cwd fs req fs' r] a by blast
  obtain pre where p: "finalKey req (sha256_hex b) = pre @ sha256_hex b @ ext req"
      "pre = [] \<or> last pre = CHR ''/''" "finalDir req = [] \<longrightarrow> pre = []"
    using finalKey_leaf[of req b] by blast
  have c: "CHR ''/'' \<notin> set (sha256_hex b @ ext req)"
    using hashed_name_clean[of b] unfolding ext_def clean_name_def by blast
  have k: "map_of (json r) ''key'' = Some (JString (pre @ sha256_hex b @ ext req))"
    using b(2) p(1) by (simp add: post_success_def)
  show "\<exists>b pre. staged_bytes root cwd fs req = Some b
         \<and> map_of (json r) ''key'' = Some (JString (pre @ sha256_hex b @ ext req))
         \<and> (pre = [] \<or> last pre = CHR ''/'')
         \<and> CHR ''/'' \<notin> set (sha256_hex b @ ext req)
         \<and> (finalDir req = [] \<longrightarrow> pre = [])"
    using b(1) k p(2,3) c by blast
next
  show "finalKey req sha =
        (if finalDir req \<noteq> [] then posix_join [finalDir req, sha @ ext req] else sha @ ext req)"
    by (simp add: finalKey_def)
  show "ext req = posix_extname (case req_file req of
                                 None \<Rightarrow> fullKey req
                               | Some f \<Rightarrow> if originalname f \<noteq> [] then originalname f else fullKey req)"
    by (rule ext_source)
next
  assume a: "fullKey req = [] \<and> (\<forall>f. req_file req = Some f \<longrightarrow> originalname f = [])"
  have e: "ext req = []" using a unfolding ext_source by (auto simp: posix_extname_def split: option.splits)
  have d: "finalDir req = []" using a by (simp add: finalDir_def)
  show "ext req = []" by (rule e)
  show "finalDir req = []" by (rule d)
  show "finalKey req sha = sha" using e d by (simp add: finalKey_def)
qed

text \<open>
  The example upload sent with the original name \<open>photo.png\<close>.
\<close>

lemma demo3_saved_name: "savedFileName demo_request3 = Some demo_saved \<and> demo_saved \<noteq> []"
  by (simp add: savedFileName_def demo_request3_def demo_saved_def)

lemma demo3_temp_resolved:
  "resolveSafePath ''/'' ''/srv/public'' [bucket demo_request3, tempKey demo_request3 demo_saved] = Inr demo_temp"
  by code_simp

lemma demo3_final_resolved:
  "resolveSafePath ''/'' ''/srv/public'' [bucket demo_request3, finalKey demo_request3 hello_hex] = Inr demo_final_png"
  by code_simp

lemma demo3_temp_final: "demo_temp \<noteq> demo_final_png"
  by code_simp

lemma demo3_final_dirname: "posix_dirname demo_final_png = ''/srv/public/docs/a/b''"
  by code_simp

lemma demo3_post:
  "post_handler ''/srv/public'' ''/'' (demo_dirs(demo_temp \<mapsto> File hello)) demo_request3
     = ((demo_dirs(demo_temp \<mapsto> File hello))(demo_temp := None, demo_final_png \<mapsto> File hello),
        post_success demo_request3 hello_hex demo_final_png)"
proof -
  let ?fsB = "demo_dirs(demo_temp \<mapsto> File hello)"
  have t: "?fsB demo_temp = Some (File hello)" by simp
  have a: "?fsB demo_final_png = None"
    using demo3_temp_final by (simp add: demo_dirs_def demo_final_png_def hello_hex_def)
  have m: "fs_mkdir ?fsB (posix_dirname demo_final_png) = Inr ?fsB"
    using demo_mkdir by (simp add: demo3_final_dirname demo_final_dirname)
  have d: "dedup_finalize ?fsB demo_temp demo_final_png = (?fsB(demo_temp := None, demo_final_png \<mapsto> File hello), None)"
    using dedup_absent[where fs="?fsB", OF t a m a] .
  have f: "resolveSafePath ''/'' ''/srv/public'' [bucket demo_request3, finalKey demo_request3 (sha256_hex hello)] = Inr demo_final_png"
    unfolding sha256_hex_hello by (rule demo3_final_resolved)
  show ?thesis
    using post_handler_staged[where fs="?fsB" and req=demo_request3 and saved=demo_saved and tempPath=demo_temp
          and b=hello and finalPath=demo_final_png and cwd="''/''" and root="''/srv/public''"]
      demo3_saved_name demo3_temp_resolved f t d by (simp add: sha256_hex_hello)
qed

lemma demo3_key: "finalKey demo_request3 hello_hex = ''a/b/'' @ hello_hex @ ''.png''"
  by code_simp

lemma demo3_exts: "ext demo_request3 = ''.png'' \<and> posix_extname (fullKey demo_request3) = ''.txt''"
  by code_simp

theorem final_name_from_content_and_extension_witness:
  "post_handler ''/srv/public'' ''/'' (demo_dirs(demo_temp \<mapsto> File hello)) demo_request3
     = ((demo_dirs(demo_temp \<mapsto> File hello))(demo_temp := None, demo_final_png \<mapsto> File hello),
        post_success demo_request3 hello_hex demo_final_png)
   \<and> status (post_success demo_request3 hello_hex demo_final_png) = 200
   \<and> (\<exists>b pre. staged_bytes ''/srv/public'' ''/'' (demo_dirs(demo_temp \<mapsto> File hello)) demo_request3 = Some b
         \<and> map_of (json (post_success demo_request3 hello_hex demo_final_png)) ''key''
              = Some (JString (pre @ sha256_hex b @ ext demo_request3)))
   \<and> fullKey \<lparr>bucket = ''docs'', body = None, req_file = Some \<lparr>filename = demo_saved, originalname = [], size_bytes = 5\<rparr>\<rparr> = []
   \<and> finalKey \<lparr>bucket = ''docs'', body = None, req_file = Some \<lparr>filename = demo_saved, originalname = [], size_bytes = 5\<rparr>\<rparr> hello_hex = hello_hex"
proof -
  let ?fsB = "demo_dirs(demo_temp \<mapsto> File hello)"
  let ?r = "post_success demo_request3 hello_hex demo_final_png"
  let ?bare = "\<lparr>bucket = ''docs'', body = None, req_file = Some \<lparr>filename = demo_saved, originalname = [], size_bytes = 5\<rparr>\<rparr>"
  note T = final_name_from_content_and_extension[of "''/srv/public''" "''/''" ?fsB demo_request3
      "?fsB(demo_temp := None, demo_final_png \<mapsto> File hello)" ?r hello_hex]
  note U = final_name_from_content_and_extension[of "''/srv/public''" "''/''" ?fsB ?bare ?fsB ?r hello_hex]
  have s: "status ?r = 200" by (simp add: post_success_def)
  have 1: "\<exists>b pre. staged_bytes ''/srv/public'' ''/'' ?fsB demo_request3 = Some b
         \<and> map_of (json ?r) ''key'' = Some (JString (pre @ sha256_hex b @ ext demo_request3))"
    using T demo3_post s by blast
  have k: "fullKey ?bare = []" by (simp add: fullKey_def js_or_def js_String_def)
  have o: "\<forall>f. req_file ?bare = Some f \<longrightarrow> originalname f = []" by simp
  have 2: "finalKey ?bare hello_hex = hello_hex" using U k o by blast
  show ?thesis using demo3_post s 1 k 2 by blast
qed

text \<open>
  The claim as stated takes the extension from the logical key. Uploading \<open>hello\<close>
  with the key \<open>a/b/file.txt\<close> and the original name \<open>photo.png\<close> stores the object
  under the extension \<open>.png\<close>, where the key's extension is \<open>.txt\<close>.
\<close>

theorem extension_comes_from_original_name:
  "post_handler ''/srv/public'' ''/'' (demo_dirs(demo_temp \<mapsto> File hello)) demo_request3
     = ((demo_dirs(demo_temp \<mapsto> File hello))(demo_temp := None, demo_final_png \<mapsto> File hello),
        post_success demo_request3 hello_hex demo_final_png)
   \<and> map_of (json (post_success demo_request3 hello_hex demo_final_png)) ''key''
        = Some (JString (''a/b/'' @ hello_hex @ ''.png''))
   \<and> posix_extname (fullKey demo_request3) = ''.txt''
   \<and> ''a/b/'' @ hello_hex @ ''.png'' \<noteq> ''a/b/'' @ hello_hex @ posix_extname (fullKey demo_request3)"
  using demo3_post demo3_key demo3_exts by (simp add: post_success_def)


section \<open>C6: what a successful request returns\<close>

lemma put_handler_200:
  assumes "put_handler root cwd fs b k payload = (fs', r)" "status r = 200"
  shows "\<exists>outPath fs1. k \<noteq> [] \<and> resolveSafePath cwd root [b, k] = Inr outPath
          \<and> fs_mkdir fs (posix_dirname outPath) = Inr fs1
          \<and> fs_write fs1 outPath payload = Inr fs'
          \<and> r = put_success b k outPath"
  using assms
  by (auto simp: put_handler_def js_or_def js_String_def error_response_def Let_def
      split: if_splits sum.splits)

text \<open>
  Claim C6, as amended. A successful hashed upload returns the bucket, the resolved key,
  its path, the retrieval URL \<open>/public/<bucket>/<key>\<close> with backslashes replaced by
  slashes, the byte size of the uploaded file and the content fingerprint. A successful
  direct write returns the bucket, the key, its path and the URL of the same form, and
  neither a byte size nor a fingerprint. In both, the path is the key resolved under the
  bucket.
\<close>

theorem success_results:
  "(post_handler root cwd fs req = (fs', r) \<and> status r = 200 \<longrightarrow>
      (\<exists>k p f h. json r = [(''bucket'', JString (bucket req)), (''key'', JString k),
                           (''path'', JString p),
                           (''url'', JString (replace_backslashes (''/public/'' @ bucket req @ ''/'' @ k))),
                           (''size'', JNumber (size_bytes f)), (''sha256'', JString h)]
         \<and> req_file req = Some f
         \<and> resolveSafePath cwd root [bucket req, k] = Inr p))
   \<and> (put_handler root cwd fs b k payload = (fs', r) \<and> status r = 200 \<longrightarrow>
      (\<exists>p. json r = [(''bucket'', JString b), (''key'', JString k), (''path'', JString p),
                     (''url'', JString (replace_backslashes (''/public/'' @ b @ ''/'' @ k)))]
         \<and> resolveSafePath cwd root [b, k] = Inr p))"
proof (intro conjI impI)
  assume a: "post_handler root cwd fs req = (fs', r) \<and> status r = 200"
  obtain saved b finalPath where s: "savedFileName req = Some saved"
      and f: "resolveSafePath cwd root [bucket req, finalKey req (sha256_hex b)] = Inr finalPath"
      and r: "r = post_success req (sha256_hex b) finalPath"
    using post_handler_200[of root cwd fs req fs' r] a by blast
  obtain uf where u: "req_file req = Some uf" using s by (auto simp: savedFileName_def split: option.splits)
  have "json r = [(''bucket'', JString (bucket req)), (''key'', JString (finalKey req (sha256_hex b))),
                  (''path'', JString finalPath),
                  (''url'', JString (replace_backslashes (''/public/'' @ bucket req @ ''/'' @ finalKey req (sha256_hex b)))),
                  (''size'', JNumber (size_bytes uf)), (''sha256'', JString (sha256_hex b))]"
    using r u by (simp add: post_success_def urlPath_def)
  then show "\<exists>k p f h. json r = [(''bucket'', JString (bucket req)), (''key'', JString k),
                           (''path'', JString p),
                           (''url'', JString (replace_backslashes (''/public/'' @ bucket req @ ''/'' @ k))),
                           (''size'', JNumber (size_bytes f)), (''sha256'', JString h)]
         \<and> req_file req = Some f
         \<and> resolveSafePath cwd root [bucket req, k] = Inr p"
    using u f by blast
next
  assume a: "put_handler root cwd fs b k payload = (fs', r) \<and> status r = 200"
  obtain outPath where "resolveSafePath cwd root [b, k] = Inr outPath" "r = put_success b k outPath"
    using put_handler_200[of root cwd fs b k payload fs' r] a by blast
  then show "\<exists>p. json r = [(''bucket'', JString b), (''key'', JString k), (''path'', JString p),
                     (''url'', JString (replace_backslashes (''/public/'' @ b @ ''/'' @ k)))]
         \<and> resolveSafePath cwd root [b, k] = Inr p"
    by (simp add: put_success_def urlPath_def)
qed

text \<open>
  A direct write of \<open>hello\<close> to \<open>docs/a/b/report.txt\<close> in the example store.
\<close>

lemma demo_put_resolved:
  "resolveSafePath ''/'' ''/srv/public'' [''docs'', ''a/b/report.txt''] = Inr ''/srv/public/docs/a/b/report.txt''"
  by code_simp

lemma demo_put_dirname: "posix_dirname ''/srv/public/docs/a/b/report.txt'' = ''/srv/public/docs/a/b''"
  by code_simp

lemma demo_dirs_mkdir: "fs_mkdir demo_dirs ''/srv/public/docs/a/b'' = Inr demo_dirs"
proof -
  have "\<not> list_ex (\<lambda>a. is_file (demo_dirs a)) (ancestors ''/srv/public/docs/a/b'')"
    unfolding demo_ancestors by (simp add: demo_dirs_def is_file_def)
  moreover have "(\<lambda>q. if q \<in> set (ancestors ''/srv/public/docs/a/b'') then Some Dir else demo_dirs q) = demo_dirs"
    unfolding demo_ancestors by (auto simp: fun_eq_iff demo_dirs_def)
  ultimately show ?thesis by (simp add: fs_mkdir_cases)
qed

lemma demo_put:
  "put_handler ''/srv/public'' ''/'' demo_dirs ''docs'' ''a/b/report.txt'' hello
     = (demo_dirs(''/srv/public/docs/a/b/report.txt'' \<mapsto> File hello),
        put_success ''docs'' ''a/b/report.txt'' ''/srv/public/docs/a/b/report.txt'')"
proof -
  have w: "fs_write demo_dirs ''/srv/public/docs/a/b/report.txt'' hello
             = Inr (demo_dirs(''/srv/public/docs/a/b/report.txt'' \<mapsto> File hello))"
    by (simp add: fs_write_def demo_put_dirname) (simp add: demo_dirs_def)
  show ?thesis
    by (simp add: put_handler_def js_or_def js_String_def Let_def demo_put_resolved demo_put_dirname
        demo_dirs_mkdir w)
qed

theorem success_results_witness:
  "post_handler ''/srv/public'' ''/'' (demo_dirs(demo_temp \<mapsto> File hello, demo_final \<mapsto> File hello)) demo_request
     = ((demo_dirs(demo_temp \<mapsto> File hello, demo_final \<mapsto> File hello))(demo_temp := None),
        post_success demo_request hello_hex demo_final)
   \<and> status (post_success demo_request hello_hex demo_final) = 200
   \<and> (\<exists>k p f h. json (post_success demo_request hello_hex demo_final)
          = [(''bucket'', JString (bucket demo_request)), (''key'', JString k), (''path'', JString p),
             (''url'', JString (replace_backslashes (''/public/'' @ bucket demo_request @ ''/'' @ k))),
             (''size'', JNumber (size_bytes f)), (''sha256'', JString h)]
         \<and> req_file demo_request = Some f
         \<and> resolveSafePath ''/'' ''/srv/public'' [bucket demo_request, k] = Inr p)
   \<and> put_handler ''/srv/public'' ''/'' demo_dirs ''docs'' ''a/b/report.txt'' hello
     = (demo_dirs(''/srv/public/docs/a/b/report.txt'' \<mapsto> File hello),
        put_success ''docs'' ''a/b/report.txt'' ''/srv/public/docs/a/b/report.txt'')
   \<and> status (put_success ''docs'' ''a/b/report.txt'' ''/srv/public/docs/a/b/report.txt'') = 200
   \<and> (\<exists>p. json (put_success ''docs'' ''a/b/report.txt'' ''/srv/public/docs/a/b/report.txt'')
          = [(''bucket'', JString ''docs''), (''key'', JString ''a/b/report.txt''), (''path'', JString p),
             (''url'', JString (replace_backslashes (''/public/'' @ ''docs'' @ ''/'' @ ''a/b/report.txt'')))]
         \<and> resolveSafePath ''/'' ''/srv/public'' [''docs'', ''a/b/report.txt''] = Inr p)"
proof -
  let ?fsA = "demo_dirs(demo_temp \<mapsto> File hello, demo_final \<mapsto> File hello)"
  let ?r = "post_success demo_request hello_hex demo_final"
  let ?q = "put_success ''docs'' ''a/b/report.txt'' ''/srv/public/docs/a/b/report.txt''"
  note T = success_results[of "''/srv/public''" "''/''" ?fsA demo_request "?fsA(demo_temp := None)" ?r
      "''docs''" "''a/b/report.txt''" hello]
  note U = success_results[of "''/srv/public''" "''/''" demo_dirs demo_request
      "demo_dirs(''/srv/public/docs/a/b/report.txt'' \<mapsto> File hello)" ?q "''docs''" "''a/b/report.txt''" hello]
  have s1: "status ?r = 200" by (simp add: post_success_def)
  have s2: "status ?q = 200" by (simp add: put_success_def)
  note 1 = T[THEN conjunct1, THEN mp, OF conjI[OF demo_post_dedup s1]]
  note 2 = U[THEN conjunct2, THEN mp, OF conjI[OF demo_put s2]]
  show ?thesis
    by (intro conjI) (rule demo_post_dedup, rule s1, rule 1, rule demo_put, rule s2, rule 2)
qed

text \<open>
  The claim as stated promises the byte size from both entry points and a URL of the
  form \<open>/<bucket>/<key>\<close>. A successful direct write of \<open>hello\<close> to
  \<open>docs/a/b/report.txt\<close> returns no \<open>size\<close> member, and its URL starts with \<open>/public\<close>.
\<close>

theorem direct_write_result_has_no_size:
  "put_handler ''/srv/public'' ''/'' demo_dirs ''docs'' ''a/b/report.txt'' hello
     = (demo_dirs(''/srv/public/docs/a/b/report.txt'' \<mapsto> File hello),
        put_success ''docs'' ''a/b/report.txt'' ''/srv/public/docs/a/b/report.txt'')
   \<and> status (put_success ''docs'' ''a/b/report.txt'' ''/srv/public/docs/a/b/report.txt'') = 200
   \<and> map_of (json (put_success ''docs'' ''a/b/report.txt'' ''/srv/public/docs/a/b/report.txt'')) ''size'' = None
   \<and> map_of (json (put_success ''docs'' ''a/b/report.txt'' ''/srv/public/docs/a/b/report.txt'')) ''url''
        = Some (JString ''/public/docs/a/b/report.txt'')
   \<and> ''/public/docs/a/b/report.txt'' \<noteq> ''/'' @ ''docs'' @ ''/'' @ ''a/b/report.txt''"
  using demo_put by (simp add: put_success_def urlPath_def replace_backslashes_def)


section \<open>C10: the key field and its capitalised alias\<close>

lemma fullKey_logical: "fullKey req = logical_key (body req)"
  by (auto simp: fullKey_def logical_key_def js_or_def js_String_def split: option.splits)

lemma storage_destination_logical:
  "storage_destination root cwd fs req =
     (let key = logical_key (body req);
          dirName = (if key \<noteq> [] then posix_dirname key else []);
          finalDir = (if dirName = ''.'' then [] else dirName)
      in case resolveSafePath cwd root [bucket req, finalDir] of
           Inl err \<Rightarrow> (fs, Inl err)
         | Inr destDir \<Rightarrow>
             (case fs_mkdir fs destDir of Inl err \<Rightarrow> (fs, Inl err) | Inr fs' \<Rightarrow> (fs', Inr destDir)))"
  by (auto simp: storage_destination_def logical_key_def js_or_def js_String_def Let_def split: option.splits)

lemma storage_filename_logical:
  "storage_filename rnd req original =
     hex_bytes rnd @ posix_extname (if logical_key (body req) \<noteq> [] then logical_key (body req) else original)"
  by (auto simp: storage_filename_def logical_key_def js_or_def js_String_def Let_def split: option.splits)

lemma handler_locals_logical:
  assumes "logical_key (body req1) = logical_key (body req2)" "bucket req1 = bucket req2"
    "req_file req1 = req_file req2"
  shows "fullKey req1 = fullKey req2" "finalDir req1 = finalDir req2" "ext req1 = ext req2"
    "savedFileName req1 = savedFileName req2" "tempKey req1 = tempKey req2"
    "finalKey req1 = finalKey req2" "post_success req1 = post_success req2"
proof -
  show k: "fullKey req1 = fullKey req2" using assms by (simp add: fullKey_logical)
  show d: "finalDir req1 = finalDir req2" using k by (simp add: finalDir_def)
  show e: "ext req1 = ext req2" using k assms by (simp add: ext_def)
  show "savedFileName req1 = savedFileName req2" using assms by (simp add: savedFileName_def)
  show "tempKey req1 = tempKey req2" by (rule ext) (simp only: tempKey_def d)
  show f: "finalKey req1 = finalKey req2" by (rule ext) (simp only: finalKey_def d e)
  show "post_success req1 = post_success req2"
    by (rule ext, rule ext) (simp only: post_success_def f assms)
qed

lemma finalDir_logical:
  "finalDir req =
     (let key = logical_key (body req);
          dirName = (if key \<noteq> [] then posix_dirname key else [])
      in if dirName = ''.'' then [] else dirName)"
  by (simp add: finalDir_def fullKey_logical Let_def)

lemma ext_logical:
  "ext req =
     posix_extname
       (case req_file req of
          None \<Rightarrow> logical_key (body req)
        | Some f \<Rightarrow> if originalname f \<noteq> [] then originalname f else logical_key (body req))"
  by (auto simp: ext_def fullKey_logical js_or_def js_String_def split: option.splits)

lemma finalKey_logical:
  "finalKey req h =
     (let key = logical_key (body req);
          dirName = (if key \<noteq> [] then posix_dirname key else []);
          dir = (if dirName = ''.'' then [] else dirName);
          hashedName = h @ posix_extname
             (case req_file req of
                None \<Rightarrow> key
              | Some f \<Rightarrow> if originalname f \<noteq> [] then originalname f else key)
      in if dir \<noteq> [] then posix_join [dir, hashedName] else hashedName)"
  unfolding finalKey_def ext_logical finalDir_logical by (simp add: Let_def)

lemma tempKey_logical:
  "tempKey req saved =
     (let key = logical_key (body req);
          dirName = (if key \<noteq> [] then posix_dirname key else []);
          dir = (if dirName = ''.'' then [] else dirName)
      in if dir \<noteq> [] then posix_join [dir, saved] else saved)"
  unfolding tempKey_def finalDir_logical by (simp add: Let_def)

text \<open>
  Claim C10. The logical key of a hashed upload is the form field \<open>key\<close> and, when
  that field is absent or empty, the field \<open>Key\<close>. Each place that reads the key works
  on this logical key. The key the handler parses is the logical key. The staging
  destination is the directory of the logical key below the bucket, resolved under the
  public root and created. The temporary file name is the random bytes in hexadecimal
  followed by the extension of the logical key, and of the original file name only when
  the logical key is empty. The final key is the directory of the logical key joined
  with the fingerprint and the extension, the extension being that of the original file
  name and, when there is none, that of the logical key; the temporary key the handler
  reads the staged file from is the same directory joined with the stored name. Hence
  two requests with the
  same logical key, bucket and file are staged and handled identically, so a form
  carrying only \<open>Key\<close> behaves as one carrying \<open>key\<close>.
\<close>

theorem key_field_fallback:
  "fullKey req = logical_key (body req)
   \<and> (body req = Some b \<and> (b ''key'' = None \<or> b ''key'' = Some []) \<and> b ''Key'' = Some k \<longrightarrow>
        logical_key (body req) = k \<and> logical_key (Some (b(''key'' \<mapsto> k))) = k)
   \<and> storage_destination root cwd fs req =
        (let key = logical_key (body req);
             dirName = (if key \<noteq> [] then posix_dirname key else []);
             dir = (if dirName = ''.'' then [] else dirName)
         in case resolveSafePath cwd root [bucket req, dir] of
              Inl err \<Rightarrow> (fs, Inl err)
            | Inr destDir \<Rightarrow>
                (case fs_mkdir fs destDir of
                   Inl err \<Rightarrow> (fs, Inl err)
                 | Inr fs' \<Rightarrow> (fs', Inr destDir)))
   \<and> storage_filename rnd req original =
        hex_bytes rnd
        @ posix_extname (if logical_key (body req) \<noteq> [] then logical_key (body req) else original)
   \<and> finalKey req h =
        (let key = logical_key (body req);
             dirName = (if key \<noteq> [] then posix_dirname key else []);
             dir = (if dirName = ''.'' then [] else dirName);
             hashedName = h @ posix_extname
                (case req_file req of
                   None \<Rightarrow> key
                 | Some f \<Rightarrow> if originalname f \<noteq> [] then originalname f else key)
         in if dir \<noteq> [] then posix_join [dir, hashedName] else hashedName)
   \<and> tempKey req saved =
        (let key = logical_key (body req);
             dirName = (if key \<noteq> [] then posix_dirname key else []);
             dir = (if dirName = ''.'' then [] else dirName)
         in if dir \<noteq> [] then posix_join [dir, saved] else saved)
   \<and> (logical_key (body req1) = logical_key (body req2) \<and> bucket req1 = bucket req2
        \<and> req_file req1 = req_file req2 \<longrightarrow>
        storage_destination root cwd fs req1 = storage_destination root cwd fs req2
        \<and> storage_filename rnd req1 original = storage_filename rnd req2 original
        \<and> post_handler root cwd fs req1 = post_handler root cwd fs req2)"
proof (intro conjI impI)
  show "fullKey req = logical_key (body req)" by (rule fullKey_logical)
next
  assume a: "body req = Some b \<and> (b ''key'' = None \<or> b ''key'' = Some []) \<and> b ''Key'' = Some k"
  then show "logical_key (body req) = k" by (auto simp: logical_key_def)
  show "logical_key (Some (b(''key'' \<mapsto> k))) = k" using a by (auto simp: logical_key_def)
next
  show "storage_destination root cwd fs req =
        (let key = logical_key (body req);
             dirName = (if key \<noteq> [] then posix_dirname key else []);
             dir = (if dirName = ''.'' then [] else dirName)
         in case resolveSafePath cwd root [bucket req, dir] of
              Inl err \<Rightarrow> (fs, Inl err)
            | Inr destDir \<Rightarrow>
                (case fs_mkdir fs destDir of
                   Inl err \<Rightarrow> (fs, Inl err)
                 | Inr fs' \<Rightarrow> (fs', Inr destDir)))"
    by (rule storage_destination_logical)
  show "storage_filename rnd req original =
        hex_bytes rnd
        @ posix_extname (if logical_key (body req) \<noteq> [] then logical_key (body req) else original)"
    by (rule storage_filename_logical)
  show "finalKey req h =
        (let key = logical_key (body req);
             dirName = (if key \<noteq> [] then posix_dirname key else []);
             dir = (if dirName = ''.'' then [] else dirName);
             hashedName = h @ posix_extname
                (case req_file req of
                   None \<Rightarrow> key
                 | Some f \<Rightarrow> if originalname f \<noteq> [] then originalname f else key)
         in if dir \<noteq> [] then posix_join [dir, hashedName] else hashedName)"
    by (rule finalKey_logical)
  show "tempKey req saved =
        (let key = logical_key (body req);
             dirName = (if key \<noteq> [] then posix_dirname key else []);
             dir = (if dirName = ''.'' then [] else dirName)
         in if dir \<noteq> [] then posix_join [dir, saved] else saved)"
    by (rule tempKey_logical)
next
  assume a: "logical_key (body req1) = logical_key (body req2) \<and> bucket req1 = bucket req2
        \<and> req_file req1 = req_file req2"
  then have l: "logical_key (body req1) = logical_key (body req2)" and b: "bucket req1 = bucket req2"
    and f: "req_file req1 = req_file req2" by blast+
  show "storage_destination root cwd fs req1 = storage_destination root cwd fs req2"
    unfolding storage_destination_logical l b ..
  show "storage_filename rnd req1 original = storage_filename rnd req2 original"
    unfolding storage_filename_logical l ..
  show "post_handler root cwd fs req1 = post_handler root cwd fs req2"
    unfolding post_handler_def handler_locals_logical[OF l b f] b ..
qed

text \<open>
  The upload of the example store that carries only \<open>Key = a/b/other.txt\<close>, with a
  file first named \<open>notes.md\<close>: it is staged in \<open>docs/a/b\<close> under a name ending in
  \<open>.txt\<close>, the extension of the key, and is staged and handled as the same form with the
  field named \<open>key\<close>.
\<close>

lemma demo2_key_parts:
  "posix_dirname ''a/b/other.txt'' = ''a/b''
   \<and> resolveSafePath ''/'' ''/srv/public'' [''docs'', ''a/b''] = Inr ''/srv/public/docs/a/b''
   \<and> posix_extname ''a/b/other.txt'' = ''.txt''
   \<and> posix_extname ''notes.txt'' = ''.txt''
   \<and> hex_bytes [1, 2, 3] = ''010203''
   \<and> posix_join [''a/b'', hello_hex @ ''.txt''] = ''a/b/'' @ hello_hex @ ''.txt''
   \<and> posix_join [''a/b'', demo_saved2] = ''a/b/'' @ demo_saved2"
  by code_simp

theorem key_field_fallback_witness:
  "body demo_request2 = Some [''Key'' \<mapsto> ''a/b/other.txt'']
   \<and> logical_key (body demo_request2) = ''a/b/other.txt''
   \<and> logical_key (body (demo_request2\<lparr>body := Some [''key'' \<mapsto> ''a/b/other.txt'']\<rparr>)) = ''a/b/other.txt''
   \<and> fullKey demo_request2 = ''a/b/other.txt''
   \<and> storage_destination ''/srv/public'' ''/'' demo_dirs demo_request2
        = (demo_dirs, Inr ''/srv/public/docs/a/b'')
   \<and> storage_filename [1, 2, 3] demo_request2 ''notes.md'' = ''010203.txt''
   \<and> finalKey demo_request2 hello_hex = ''a/b/'' @ hello_hex @ ''.txt''
   \<and> tempKey demo_request2 demo_saved2 = ''a/b/'' @ demo_saved2
   \<and> storage_destination ''/srv/public'' ''/'' demo_dirs demo_request2
        = storage_destination ''/srv/public'' ''/'' demo_dirs (demo_request2\<lparr>body := Some [''key'' \<mapsto> ''a/b/other.txt'']\<rparr>)
   \<and> storage_filename [1, 2, 3] demo_request2 ''notes.md''
        = storage_filename [1, 2, 3] (demo_request2\<lparr>body := Some [''key'' \<mapsto> ''a/b/other.txt'']\<rparr>) ''notes.md''
   \<and> post_handler ''/srv/public'' ''/'' (demo_dirs(demo_temp2 \<mapsto> File hello)) demo_request2
        = post_handler ''/srv/public'' ''/'' (demo_dirs(demo_temp2 \<mapsto> File hello))
            (demo_request2\<lparr>body := Some [''key'' \<mapsto> ''a/b/other.txt'']\<rparr>)"
proof -
  let ?b = "[''Key'' \<mapsto> ''a/b/other.txt'']"
  let ?req' = "demo_request2\<lparr>body := Some [''key'' \<mapsto> ''a/b/other.txt'']\<rparr>"
  let ?fsB = "demo_dirs(demo_temp2 \<mapsto> File hello)"
  note T = key_field_fallback[where req=demo_request2 and b="?b" and k="''a/b/other.txt''"
      and ?req1.0=demo_request2 and ?req2.0="?req'" and root="''/srv/public''" and cwd="''/''"
      and rnd="[1, 2, 3]" and original="''notes.md''" and h=hello_hex and saved=demo_saved2]
  have b: "body demo_request2 = Some ?b" by (simp add: demo_request2_def)
  have h: "body demo_request2 = Some ?b \<and> (?b ''key'' = None \<or> ?b ''key'' = Some []) \<and> ?b ''Key'' = Some ''a/b/other.txt''"
    using b by simp
  have l1: "logical_key (body demo_request2) = ''a/b/other.txt''"
    using T[where fs=demo_dirs, THEN conjunct2, THEN conjunct1, THEN mp, OF h] by blast
  have l2: "logical_key (body ?req') = ''a/b/other.txt''" by (simp add: logical_key_def)
  have k: "fullKey demo_request2 = ''a/b/other.txt''"
    using T[where fs=demo_dirs, THEN conjunct1] l1 by simp
  have bk: "bucket demo_request2 = ''docs''" and rf: "req_file demo_request2
      = Some \<lparr>filename = demo_saved2, originalname = ''notes.txt'', size_bytes = 5\<rparr>"
    by (simp_all add: demo_request2_def)
  have d: "storage_destination ''/srv/public'' ''/'' demo_dirs demo_request2
        = (demo_dirs, Inr ''/srv/public/docs/a/b'')"
    using T[where fs=demo_dirs, THEN conjunct2, THEN conjunct2, THEN conjunct1]
    by (simp add: l1 bk demo2_key_parts demo_dirs_mkdir)
  have n: "storage_filename [1, 2, 3] demo_request2 ''notes.md'' = ''010203.txt''"
    using T[where fs=demo_dirs, THEN conjunct2, THEN conjunct2, THEN conjunct2, THEN conjunct1]
    by (simp add: l1 demo2_key_parts)
  have f: "finalKey demo_request2 hello_hex = ''a/b/'' @ hello_hex @ ''.txt''"
    using T[where fs=demo_dirs, THEN conjunct2, THEN conjunct2, THEN conjunct2, THEN conjunct2, THEN conjunct1]
    by (simp add: l1 rf demo2_key_parts)
  have tk: "tempKey demo_request2 demo_saved2 = ''a/b/'' @ demo_saved2"
    using T[where fs=demo_dirs, THEN conjunct2, THEN conjunct2, THEN conjunct2, THEN conjunct2,
        THEN conjunct2, THEN conjunct1]
    by (simp add: l1 demo2_key_parts)
  have e: "logical_key (body demo_request2) = logical_key (body ?req') \<and> bucket demo_request2 = bucket ?req'
        \<and> req_file demo_request2 = req_file ?req'"
    using l1 l2 by simp
  note L = T[where fs=demo_dirs, THEN conjunct2, THEN conjunct2, THEN conjunct2, THEN conjunct2,
      THEN conjunct2, THEN conjunct2, THEN mp, OF e]
  note M = T[where fs="?fsB", THEN conjunct2, THEN conjunct2, THEN conjunct2, THEN conjunct2,
      THEN conjunct2, THEN conjunct2, THEN mp, OF e]
  have 1: "storage_destination ''/srv/public'' ''/'' demo_dirs demo_request2
        = storage_destination ''/srv/public'' ''/'' demo_dirs ?req'"
    using L by blast
  have 2: "storage_filename [1, 2, 3] demo_request2 ''notes.md'' = storage_filename [1, 2, 3] ?req' ''notes.md''"
    using L by blast
  have 3: "post_handler ''/srv/public'' ''/'' ?fsB demo_request2 = post_handler ''/srv/public'' ''/'' ?fsB ?req'"
    using M by blast
  show ?thesis
    by (intro conjI) (rule b, rule l1, rule l2, rule k, rule d, rule n, rule f, rule tk, rule 1, rule 2, rule 3)
qed


section \<open>C9: the direct write replaces what was there\<close>

text \<open>
  Writing twice to one path: the directory made for the first write is there for the
  second, which only replaces the file.
\<close>

lemma fs_write_Inr:
  "fs_write fs p payload = Inr fs' \<Longrightarrow>
     fs' = fs(p \<mapsto> File payload) \<and> fs p \<noteq> Some Dir \<and> fs (posix_dirname p) = Some Dir"
  by (auto simp: fs_write_def split: option.splits node.splits if_splits)

lemma fs_mkdir_Inr:
  "fs_mkdir fs d = Inr fs1 \<Longrightarrow>
     fs1 = (\<lambda>q. if q \<in> set (ancestors d) then Some Dir else fs q)
     \<and> (\<forall>a\<in>set (ancestors d). \<not> is_file (fs a))"
  by (auto simp: fs_mkdir_cases list_ex_iff split: if_splits)

lemma put_twice:
  assumes m: "fs_mkdir fs (posix_dirname p) = Inr fsm" and w: "fs_write fsm p payload1 = Inr fs1"
  shows "fs_mkdir fs1 (posix_dirname p) = Inr fs1"
    and "fs_write fs1 p payload2 = Inr (fs1(p \<mapsto> File payload2))"
proof -
  let ?d = "posix_dirname p"
  have fsm: "fsm = (\<lambda>q. if q \<in> set (ancestors ?d) then Some Dir else fs q)"
    using fs_mkdir_Inr[OF m] by blast
  have w': "fs1 = fsm(p \<mapsto> File payload1)" "fsm p \<noteq> Some Dir" "fsm ?d = Some Dir"
    using fs_write_Inr[OF w] by blast+
  have pn: "p \<notin> set (ancestors ?d)" using w'(2) fsm by auto
  have anc: "\<forall>a\<in>set (ancestors ?d). fs1 a = Some Dir" using fsm w'(1) pn by auto
  then have nof: "\<not> list_ex (\<lambda>a. is_file (fs1 a)) (ancestors ?d)"
    by (auto simp: list_ex_iff is_file_def)
  have "(\<lambda>q. if q \<in> set (ancestors ?d) then Some Dir else fs1 q) = fs1"
    using anc by (auto simp: fun_eq_iff)
  then show "fs_mkdir fs1 ?d = Inr fs1" using nof by (simp add: fs_mkdir_cases)
  have "?d \<in> set (ancestors ?d)" by (simp add: ancestors_def)
  then have "fs1 ?d = Some Dir" using anc by blast
  then show "fs_write fs1 p payload2 = Inr (fs1(p \<mapsto> File payload2))"
    using w'(1) by (simp add: fs_write_def)
qed

lemma put_handler_run:
  assumes "k \<noteq> []" "resolveSafePath cwd root [b, k] = Inr outPath"
    "fs_mkdir fs (posix_dirname outPath) = Inr fs1"
  shows "put_handler root cwd fs b k payload =
           (case fs_write fs1 outPath payload of
              Inl err \<Rightarrow> (fs1, error_response 500 (message err))
            | Inr fs2 \<Rightarrow> (fs2, put_success b k outPath))"
  using assms by (simp add: put_handler_def js_or_def js_String_def Let_def)

text \<open>
  Claim C9. For every bucket and explicit key and two direct writes to that key, one
  after the other: when the second write completes, the file at the key's path holds
  exactly the second payload, and every other file of the store is what it was before
  the second write (no staged file, no second copy). When the first write completed,
  the second completes too, and the store after it is the store after the first with
  the second payload at the key's path.
\<close>

theorem direct_write_overwrites:
  "(put_handler root cwd fs b k payload1 = (fs1, r1)
      \<and> put_handler root cwd fs1 b k payload2 = (fs2, r2) \<and> status r2 = 200 \<longrightarrow>
      (\<exists>p. resolveSafePath cwd root [b, k] = Inr p \<and> fs2 p = Some (File payload2)
           \<and> (\<forall>q. q \<noteq> p \<and> is_file (fs2 q) \<longrightarrow> fs2 q = fs1 q)
           \<and> (\<forall>q. q \<noteq> p \<and> is_file (fs1 q) \<longrightarrow> fs2 q = fs1 q)))
   \<and> (put_handler root cwd fs b k payload1 = (fs1, r1) \<and> status r1 = 200
      \<and> put_handler root cwd fs1 b k payload2 = (fs2, r2) \<longrightarrow>
      status r2 = 200
      \<and> (\<exists>p. resolveSafePath cwd root [b, k] = Inr p \<and> fs1 p = Some (File payload1)
              \<and> fs2 = fs1(p \<mapsto> File payload2)))"
proof (intro conjI impI)
  assume a: "put_handler root cwd fs b k payload1 = (fs1, r1)
      \<and> put_handler root cwd fs1 b k payload2 = (fs2, r2) \<and> status r2 = 200"
  obtain p fsm where p: "resolveSafePath cwd root [b, k] = Inr p"
      and m: "fs_mkdir fs1 (posix_dirname p) = Inr fsm" and w: "fs_write fsm p payload2 = Inr fs2"
    using put_handler_200[of root cwd fs1 b k payload2 fs2 r2] a by blast
  have fs2: "fs2 = fsm(p \<mapsto> File payload2)" using fs_write_Inr[OF w] by blast
  have keep: "is_file (fs1 q) \<Longrightarrow> fsm q = fs1 q" for q using fs_mkdir_keeps_files[OF m] by blast
  have other: "fsm q = fs1 q \<or> fsm q = Some Dir" for q using fs_mkdir_other[OF m] by blast
  have 1: "\<forall>q. q \<noteq> p \<and> is_file (fs2 q) \<longrightarrow> fs2 q = fs1 q"
  proof (intro allI impI)
    fix q assume q: "q \<noteq> p \<and> is_file (fs2 q)"
    then have qn: "q \<noteq> p" and qf: "is_file (fs2 q)" by blast+
    have e: "fs2 q = fsm q" using fs2 qn by simp
    then have "fsm q \<noteq> Some Dir" using qf by (auto simp: is_file_def)
    then have "fsm q = fs1 q" using other[of q] by blast
    then show "fs2 q = fs1 q" using e by simp
  qed
  have 2: "\<forall>q. q \<noteq> p \<and> is_file (fs1 q) \<longrightarrow> fs2 q = fs1 q"
  proof (intro allI impI)
    fix q assume q: "q \<noteq> p \<and> is_file (fs1 q)"
    then have qn: "q \<noteq> p" and qf: "is_file (fs1 q)" by blast+
    have "fs2 q = fsm q" using fs2 qn by simp
    then show "fs2 q = fs1 q" using keep[OF qf] by simp
  qed
  have 0: "fs2 p = Some (File payload2)" by (simp add: fs2)
  show "\<exists>p. resolveSafePath cwd root [b, k] = Inr p \<and> fs2 p = Some (File payload2)
           \<and> (\<forall>q. q \<noteq> p \<and> is_file (fs2 q) \<longrightarrow> fs2 q = fs1 q)
           \<and> (\<forall>q. q \<noteq> p \<and> is_file (fs1 q) \<longrightarrow> fs2 q = fs1 q)"
    by (intro exI[of _ p] conjI) (rule p, rule 0, rule 1, rule 2)
next
  assume a: "put_handler root cwd fs b k payload1 = (fs1, r1) \<and> status r1 = 200
      \<and> put_handler root cwd fs1 b k payload2 = (fs2, r2)"
  obtain p fsm where k: "k \<noteq> []" and p: "resolveSafePath cwd root [b, k] = Inr p"
      and m: "fs_mkdir fs (posix_dirname p) = Inr fsm" and w: "fs_write fsm p payload1 = Inr fs1"
    using put_handler_200[of root cwd fs b k payload1 fs1 r1] a by blast
  have f1: "fs1 p = Some (File payload1)" using fs_write_Inr[OF w] by simp
  have "put_handler root cwd fs1 b k payload2 = (fs1(p \<mapsto> File payload2), put_success b k p)"
    using put_handler_run[OF k p put_twice(1)[OF m w], of payload2] put_twice(2)[OF m w, of payload2]
    by simp
  moreover have "put_handler root cwd fs1 b k payload2 = (fs2, r2)" using a by blast
  ultimately have r: "fs2 = fs1(p \<mapsto> File payload2)" "r2 = put_success b k p" by simp_all
  show "status r2 = 200" using r by (simp add: put_success_def)
  show "\<exists>p. resolveSafePath cwd root [b, k] = Inr p \<and> fs1 p = Some (File payload1)
              \<and> fs2 = fs1(p \<mapsto> File payload2)"
    by (intro exI[of _ p] conjI) (rule p, rule f1, rule r(1))
qed


theorem direct_write_overwrites_witness:
  "put_handler ''/srv/public'' ''/'' demo_dirs ''docs'' ''a/b/report.txt'' hello
     = (demo_dirs(''/srv/public/docs/a/b/report.txt'' \<mapsto> File hello),
        put_success ''docs'' ''a/b/report.txt'' ''/srv/public/docs/a/b/report.txt'')
   \<and> status (put_success ''docs'' ''a/b/report.txt'' ''/srv/public/docs/a/b/report.txt'') = 200
   \<and> hello \<noteq> [1, 2, 3]
   \<and> status (snd (put_handler ''/srv/public'' ''/''
         (demo_dirs(''/srv/public/docs/a/b/report.txt'' \<mapsto> File hello)) ''docs'' ''a/b/report.txt'' [1, 2, 3])) = 200
   \<and> (\<exists>p. resolveSafePath ''/'' ''/srv/public'' [''docs'', ''a/b/report.txt''] = Inr p
         \<and> fst (put_handler ''/srv/public'' ''/''
               (demo_dirs(''/srv/public/docs/a/b/report.txt'' \<mapsto> File hello)) ''docs'' ''a/b/report.txt'' [1, 2, 3]) p
             = Some (File [1, 2, 3]))"
proof -
  let ?fs1 = "demo_dirs(''/srv/public/docs/a/b/report.txt'' \<mapsto> File hello)"
  let ?r1 = "put_success ''docs'' ''a/b/report.txt'' ''/srv/public/docs/a/b/report.txt''"
  let ?second = "put_handler ''/srv/public'' ''/'' ?fs1 ''docs'' ''a/b/report.txt'' [1, 2, 3]"
  note T = direct_write_overwrites[of "''/srv/public''" "''/''" demo_dirs "''docs''" "''a/b/report.txt''" hello
      ?fs1 ?r1 "[1, 2, 3]" "fst ?second" "snd ?second"]
  have s1: "status ?r1 = 200" by (simp add: put_success_def)
  have c: "?second = (fst ?second, snd ?second)" by simp
  have d: "hello \<noteq> [1, 2, 3]" by (simp add: hello_def)
  have s2: "status (snd ?second) = 200"
    using T[THEN conjunct2, THEN mp, OF conjI[OF demo_put conjI[OF s1 c]]] by blast
  have e: "\<exists>p. resolveSafePath ''/'' ''/srv/public'' [''docs'', ''a/b/report.txt''] = Inr p
         \<and> fst ?second p = Some (File [1, 2, 3])"
    using T[THEN conjunct1, THEN mp, OF conjI[OF demo_put conjI[OF c s2]]] by blast
  show ?thesis
    by (intro conjI) (rule demo_put, rule s1, rule d, rule s2, rule e)
qed


section \<open>C7: absolute segments\<close>

text \<open>
  Repeated and trailing separators do not change what a path normalises to, so they do
  not change what it resolves to.
\<close>

lemma normalizeString_double_sep:
  "normalizeString (b @ CHR ''/'' # CHR ''/'' # k) a = normalizeString (b @ CHR ''/'' # k) a"
proof -
  have "split_sep (b @ CHR ''/'' # CHR ''/'' # k) = split_sep b @ [] # split_sep k"
    using split_sep_app[of b "CHR ''/'' # k"] by simp
  moreover have "split_sep (b @ CHR ''/'' # k) = split_sep b @ split_sep k" by (rule split_sep_app)
  ultimately show ?thesis
    by (simp add: normalizeString_def norm_segments_def)
qed

lemma normalizeString_trailing_sep:
  "normalizeString (y @ ''/'') a = normalizeString y a"
proof -
  have "split_sep (y @ ''/'') = split_sep y @ [[]]" using split_sep_app[of y "[]"] by simp
  then show ?thesis by (simp add: normalizeString_def norm_segments_def)
qed

lemma resolve_loop_acc:
  "\<exists>pre ab. \<forall>acc. resolve_loop args acc = (pre @ acc, ab)"
proof (induction args)
  case Nil
  show ?case by (intro exI[of _ "[]"] exI[of _ False]) simp
next
  case (Cons p args)
  then obtain pre ab where IH: "\<forall>acc. resolve_loop args acc = (pre @ acc, ab)" by blast
  show ?case
  proof (cases "p = []")
    case True then show ?thesis using IH by auto
  next
    case False
    show ?thesis
    proof (cases "isAbsolute p")
      case True
      then show ?thesis using False by (intro exI[of _ "p @ ''/''"] exI[of _ True]) simp
    next
      case na: False
      then show ?thesis using False IH by (intro exI[of _ "pre @ p @ ''/''"] exI[of _ ab]) simp
    qed
  qed
qed

lemma posix_resolve_trailing_sep:
  assumes "u \<noteq> []"
  shows "posix_resolve cwd [root, u @ ''/''] = posix_resolve cwd [root, u]"
proof (cases "isAbsolute u")
  case True
  then have "isAbsolute (u @ ''/'')" using assms by (cases u) (auto simp: isAbsolute_def)
  then show ?thesis using True assms
    using normalizeString_trailing_sep[of "u @ ''/''" False]
    by (simp add: posix_resolve_def)
next
  case False
  then have n: "\<not> isAbsolute (u @ ''/'')" using assms by (cases u) (auto simp: isAbsolute_def)
  obtain pre ab where l: "\<forall>acc. resolve_loop [root, cwd] acc = (pre @ acc, ab)"
    using resolve_loop_acc by blast
  have 1: "resolve_loop (rev [root, u @ ''/''] @ [cwd]) [] = (pre @ u @ ''//'', ab)"
    using n assms l by simp
  have 2: "resolve_loop (rev [root, u] @ [cwd]) [] = (pre @ u @ ''/'', ab)"
    using False assms l by simp
  have "normalizeString (pre @ u @ ''//'') (\<not> ab) = normalizeString (pre @ u @ ''/'') (\<not> ab)"
    using normalizeString_trailing_sep[of "pre @ u @ ''/''" "\<not> ab"] by simp
  then show ?thesis unfolding posix_resolve_def 1 2 by simp
qed

lemma posix_normalize_trailing:
  assumes "b \<noteq> []"
  shows "posix_normalize (b @ ''//'') = posix_normalize b
       \<or> posix_normalize (b @ ''//'') = posix_normalize b @ ''/''"
proof -
  have a: "isAbsolute (b @ ''//'') = isAbsolute b" using assms by (cases b) (auto simp: isAbsolute_def)
  have n: "normalizeString (b @ ''//'') x = normalizeString b x" for x
    using normalizeString_trailing_sep[of "b @ ''/''" x] normalizeString_trailing_sep[of b x] by simp
  have t: "endsWithSep (b @ ''//'')" by (simp add: endsWithSep_def)
  show ?thesis using assms a n t
    by (auto simp: posix_normalize_def Let_def)
qed

lemma posix_normalize_nonempty: "posix_normalize p \<noteq> []"
  by (auto simp: posix_normalize_def Let_def)

lemma resolve_join_abs_segment:
  assumes "bkt \<noteq> []"
  shows "posix_resolve cwd [root, posix_join [bkt, CHR ''/'' # k]]
       = posix_resolve cwd [root, posix_join [bkt, k]]"
proof (cases "k = []")
  case True
  have j1: "posix_join [bkt, CHR ''/'' # k] = posix_normalize (bkt @ ''//'')"
    using assms True by (simp add: posix_join_def)
  have j2: "posix_join [bkt, k] = posix_normalize bkt"
    using assms True by (simp add: posix_join_def)
  show ?thesis
    using posix_normalize_trailing[OF assms] posix_resolve_trailing_sep[OF posix_normalize_nonempty, of cwd root bkt]
    unfolding j1 j2 by auto
next
  case False
  have j1: "posix_join [bkt, CHR ''/'' # k] = posix_normalize (bkt @ CHR ''/'' # CHR ''/'' # k)"
    using assms by (simp add: posix_join_def)
  have j2: "posix_join [bkt, k] = posix_normalize (bkt @ CHR ''/'' # k)"
    using assms False by (simp add: posix_join_def)
  have a: "isAbsolute (bkt @ CHR ''/'' # CHR ''/'' # k) = isAbsolute (bkt @ CHR ''/'' # k)"
    using assms by (cases bkt) (auto simp: isAbsolute_def)
  have t: "endsWithSep (bkt @ CHR ''/'' # CHR ''/'' # k) = endsWithSep (bkt @ CHR ''/'' # k)"
    using False by (simp add: endsWithSep_def)
  have "posix_normalize (bkt @ CHR ''/'' # CHR ''/'' # k) = posix_normalize (bkt @ CHR ''/'' # k)"
    unfolding posix_normalize_def a t normalizeString_double_sep by simp
  then show ?thesis unfolding j1 j2 by simp
qed

lemma posix_normalize_resolved:
  assumes "is_resolved s"
  shows "posix_normalize s = s"
proof -
  obtain ps where s: "s = CHR ''/'' # join_sep ps" and c: "list_all clean_name ps"
    using is_resolved_form[OF assms] by blast
  have nosep: "\<forall>x\<in>set ps. CHR ''/'' \<notin> set x" using c by (auto simp: clean_name_def list_all_iff)
  show ?thesis
  proof (cases "ps = []")
    case True
    then show ?thesis using s
      by (simp add: posix_normalize_def isAbsolute_def endsWithSep_def normalizeString_def norm_segments_def)
  next
    case False
    have sp: "split_sep s = [] # ps" using s split_join[OF False nosep] by simp
    have n: "normalizeString s False = join_sep ps"
      using foldl_norm_push[OF c, of "[]"] by (simp add: normalizeString_def norm_segments_def sp)
    have e: "\<not> endsWithSep s" using join_sep_last[OF False c] s by (simp add: endsWithSep_def)
    have j: "join_sep ps \<noteq> []" using join_sep_last[OF False c] by simp
    show ?thesis using n e j s by (simp add: posix_normalize_def isAbsolute_def Let_def)
  qed
qed

lemma resolve_resolved_segment:
  assumes "is_resolved s"
  shows "posix_resolve cwd [root, posix_join [s]] = s"
proof -
  have a: "isAbsolute s" and r: "posix_resolve [] [s] = s" using assms by (auto simp: is_resolved_def)
  have ne: "s \<noteq> []" using a by (auto simp: isAbsolute_def)
  have j: "posix_join [s] = s" using ne posix_normalize_resolved[OF assms] by (simp add: posix_join_def)
  have "posix_resolve cwd [root, s] = posix_resolve [] [s]"
    using a ne by (simp add: posix_resolve_def)
  then show ?thesis using j r by simp
qed

text \<open>
  Claim C7, as amended. An absolute path in normal form given as the only segment is
  resolved as it is: it is returned when it lies inside the root and fails with
  \<open>InvalidPathError\<close> exactly when it lies outside. A key segment that starts with a
  separator and follows a non-empty bucket is joined below the bucket, as the same
  segment without its leading separator is: it is not rejected for being absolute.
\<close>

theorem absolute_segments:
  "(is_resolved s \<longrightarrow>
      resolveSafePath cwd rootDir [s] = (if within_root rootDir s then Inr s else Inl InvalidPathError))
   \<and> (bkt \<noteq> [] \<longrightarrow>
      resolveSafePath cwd rootDir [bkt, CHR ''/'' # k] = resolveSafePath cwd rootDir [bkt, k])"
proof (intro conjI impI)
  assume "is_resolved s"
  then show "resolveSafePath cwd rootDir [s] = (if within_root rootDir s then Inr s else Inl InvalidPathError)"
    using resolveSafePath_exact[of cwd rootDir "[s]"] resolve_resolved_segment[of s cwd rootDir]
    by (simp add: Let_def)
next
  assume "bkt \<noteq> []"
  then show "resolveSafePath cwd rootDir [bkt, CHR ''/'' # k] = resolveSafePath cwd rootDir [bkt, k]"
    using resolveSafePath_exact[of cwd rootDir "[bkt, CHR ''/'' # k]"]
      resolveSafePath_exact[of cwd rootDir "[bkt, k]"]
      resolve_join_abs_segment[of bkt cwd rootDir k]
    by simp
qed

lemma demo_abs_inside:
  "is_resolved ''/srv/public/docs/x'' \<and> within_root ''/srv/public'' ''/srv/public/docs/x''
   \<and> is_resolved ''/etc/passwd'' \<and> \<not> within_root ''/srv/public'' ''/etc/passwd''"
  by code_simp

lemma demo_abs_key:
  "resolveSafePath ''/'' ''/srv/public'' [''docs'', ''etc/passwd''] = Inr ''/srv/public/docs/etc/passwd''"
  by code_simp

theorem absolute_segments_witness:
  "is_resolved ''/srv/public/docs/x''
   \<and> resolveSafePath ''/'' ''/srv/public'' [''/srv/public/docs/x''] = Inr ''/srv/public/docs/x''
   \<and> is_resolved ''/etc/passwd''
   \<and> resolveSafePath ''/'' ''/srv/public'' [''/etc/passwd''] = Inl InvalidPathError
   \<and> ''docs'' \<noteq> []
   \<and> resolveSafePath ''/'' ''/srv/public'' [''docs'', ''/etc/passwd''] = Inr ''/srv/public/docs/etc/passwd''"
proof -
  have 1: "resolveSafePath ''/'' ''/srv/public'' [''/srv/public/docs/x''] = Inr ''/srv/public/docs/x''"
    using absolute_segments[of "''/srv/public/docs/x''" "''/''" "''/srv/public''" "''docs''" "''etc/passwd''"]
      demo_abs_inside by simp
  have 2: "resolveSafePath ''/'' ''/srv/public'' [''/etc/passwd''] = Inl InvalidPathError"
    using absolute_segments[of "''/etc/passwd''" "''/''" "''/srv/public''" "''docs''" "''etc/passwd''"]
      demo_abs_inside by simp
  have 3: "resolveSafePath ''/'' ''/srv/public'' [''docs'', ''/etc/passwd''] = Inr ''/srv/public/docs/etc/passwd''"
    using absolute_segments[of "''/etc/passwd''" "''/''" "''/srv/public''" "''docs''" "''etc/passwd''"]
      demo_abs_key by simp
  show ?thesis using 1 2 3 demo_abs_inside by simp
qed

text \<open>
  The claim as stated rejects every absolute segment. The key \<open>/etc/passwd\<close> in the
  bucket \<open>docs\<close> resolves to \<open>/srv/public/docs/etc/passwd\<close>, and the absolute first
  segment \<open>/srv/public/docs/x\<close>, which lies inside the root, is returned.
\<close>

theorem absolute_key_segment_accepted:
  "isAbsolute ''/etc/passwd''
   \<and> resolveSafePath ''/'' ''/srv/public'' [''docs'', ''/etc/passwd''] = Inr ''/srv/public/docs/etc/passwd''
   \<and> isAbsolute ''/srv/public/docs/x''
   \<and> resolveSafePath ''/'' ''/srv/public'' [''/srv/public/docs/x''] = Inr ''/srv/public/docs/x''"
  by code_simp


section \<open>C3: two identical uploads finalised concurrently\<close>

text \<open>
  The directory of an absolute path other than the root is shorter than the path, so a
  path is never one of the directories made for it.
\<close>

lemma dropWhile_segment_shorter: "dropWhile (\<lambda>x. x \<noteq> CHR ''/'') (dropWhile (\<lambda>x. x = CHR ''/'') ys) \<noteq> [] \<Longrightarrow>
   length (dropWhile (\<lambda>x. x \<noteq> CHR ''/'') (dropWhile (\<lambda>x. x = CHR ''/'') ys)) < length ys"
proof -
  let ?X = "dropWhile (\<lambda>x. x = CHR ''/'') ys"
  assume rn: "dropWhile (\<lambda>x. x \<noteq> CHR ''/'') ?X \<noteq> []"
  have xn: "?X \<noteq> []" using rn by (cases ?X) simp_all
  then obtain x xs where x: "?X = x # xs" by (cases ?X) simp_all
  have "\<not> (hd ?X = CHR ''/'')" using xn by (rule hd_dropWhile)
  then have "x \<noteq> CHR ''/''" unfolding x by simp
  then have "dropWhile (\<lambda>x. x \<noteq> CHR ''/'') ?X = dropWhile (\<lambda>x. x \<noteq> CHR ''/'') xs"
    unfolding x by simp
  moreover have "length (dropWhile (\<lambda>x. x \<noteq> CHR ''/'') xs) \<le> length xs" by (rule length_dropWhile_le)
  moreover have "length ?X \<le> length ys" by (rule length_dropWhile_le)
  ultimately show ?thesis unfolding x by simp
qed


lemma posix_dirname_abs_unfold: "posix_dirname (CHR ''/'' # cs) =
   (let r = dropWhile (\<lambda>x. x \<noteq> CHR ''/'') (dropWhile (\<lambda>x. x = CHR ''/'') (rev cs))
    in if r = [] then ''/'' else if length r = 1 then ''//'' else take (length r) (CHR ''/'' # cs))"
  unfolding posix_dirname_def Let_def list.case by (simp only: simp_thms if_True)

lemma dirname_abs:
  assumes "isAbsolute p"
  shows "isAbsolute (posix_dirname p) \<and> length (posix_dirname p) \<le> length p
         \<and> (p \<noteq> ''/'' \<longrightarrow> length (posix_dirname p) < length p)"
proof -
  obtain cs where p: "p = CHR ''/'' # cs" using assms by (cases p) (auto simp: isAbsolute_def)
  define r where "r = dropWhile (\<lambda>x. x \<noteq> CHR ''/'') (dropWhile (\<lambda>x. x = CHR ''/'') (rev cs))"
  have d: "posix_dirname p = (if r = [] then ''/'' else if length r = 1 then ''//'' else take (length r) p)"
    unfolding p posix_dirname_abs_unfold r_def Let_def ..
  have l: "r \<noteq> [] \<Longrightarrow> length r < length cs"
    using dropWhile_segment_shorter[of "rev cs"] unfolding r_def length_rev by blast
  show ?thesis
  proof (cases "r = []")
    case True
    then show ?thesis unfolding d using p by (cases cs) (simp_all add: isAbsolute_def)
  next
    case False
    then have lr: "length r < length cs" by (rule l)
    have l1: "length r \<ge> 1" using False by (cases r) simp_all
    show ?thesis
    proof (cases "length r = 1")
      case True
      then show ?thesis unfolding d using False lr p by (simp add: isAbsolute_def)
    next
      case f: False
      obtain n where n: "length r = Suc n" using l1 by (cases "length r") simp_all
      have "take (length r) p = CHR ''/'' # take n cs" unfolding n p by simp
      then show ?thesis unfolding d using False f lr p n by (simp add: isAbsolute_def)
    qed
  qed
qed


lemma parents_abs:
  "isAbsolute p \<Longrightarrow> \<forall>a\<in>set (parents n p). length a \<le> length p"
proof (induction n arbitrary: p)
  case 0 then show ?case by simp
next
  case (Suc n)
  have d: "isAbsolute (posix_dirname p)" "length (posix_dirname p) \<le> length p"
    using dirname_abs[OF Suc.prems] by blast+
  have "\<forall>a\<in>set (parents n (posix_dirname p)). length a \<le> length (posix_dirname p)"
    using Suc.IH[OF d(1)] .
  then show ?case using d(2) by (auto simp: Let_def)
qed

lemma not_own_ancestor:
  assumes "isAbsolute f" "f \<noteq> ''/''"
  shows "f \<notin> set (ancestors (posix_dirname f))"
proof -
  have d: "isAbsolute (posix_dirname f)" "length (posix_dirname f) < length f"
    using dirname_abs[OF assms(1)] assms(2) by blast+
  have "\<forall>a\<in>set (parents (length (posix_dirname f)) (posix_dirname f)). length a \<le> length (posix_dirname f)"
    using parents_abs[OF d(1)] .
  then have "\<forall>a\<in>set (ancestors (posix_dirname f)). length a < length f"
    using d(2) by (auto simp: ancestors_def)
  then show ?thesis by auto
qed






text \<open>
  The deduplication block is its four steps taken without interruption.
\<close>

lemma dedup_finalize_steps:
  "dedup_finalize fs t f =
     (case interleave t u f [False, False, False, False] (fs, AtAccess, c) of
        (fs', c1, _) \<Rightarrow> (fs', case c1 of Failed e \<Rightarrow> Some e | _ \<Rightarrow> None))"
  by (auto simp: dedup_finalize_def dedup_rename_def finalize_step_def
      split: sum.splits option.splits prod.splits)



section \<open>C3: the race in the example store\<close>

text \<open>
  Two uploads of \<open>hello\<close> staged side by side in the example store, the final path
  still empty.
\<close>

lemma demo_race_paths:
  "demo_temp \<noteq> demo_temp2 \<and> demo_temp \<noteq> demo_final \<and> demo_temp2 \<noteq> demo_final
   \<and> isAbsolute demo_final \<and> demo_final \<noteq> ''/''
   \<and> ancestors (posix_dirname demo_final) =
       [''/srv/public/docs/a/b'', ''/srv/public/docs/a'', ''/srv/public/docs'', ''/srv/public'', ''/srv'', ''/'']"
  by code_simp

lemma demo_race_dir:
  "\<not> list_ex (\<lambda>a. is_file ((demo_dirs(demo_temp \<mapsto> File hello, demo_temp2 \<mapsto> File hello)) a))
        (ancestors (posix_dirname demo_final))"
  unfolding demo_final_dirname demo_ancestors
  by (simp add: demo_dirs_def demo_temp_def demo_temp2_def is_file_def)

lemma demo_race_final_absent:
  "(demo_dirs(demo_temp \<mapsto> File hello, demo_temp2 \<mapsto> File hello)) demo_final = None"
  using demo_temp_final demo2_temp_final by (simp add: demo_dirs_def demo_final_def hello_hex_def)




section \<open>C2: outcomes of the deduplication block\<close>

text \<open>
  The deduplication block touches the staged path and the final path, and makes
  directories; every other file stays as it is.
\<close>

lemma dedup_frame:
  assumes r: "dedup_finalize fs t f = (fs', e)" and q: "q \<noteq> t" "q \<noteq> f"
  shows "(fs' q = fs q \<or> fs' q = Some Dir) \<and> (is_file (fs q) \<longrightarrow> fs' q = fs q)"
proof -
  have 1: "fs' q = fs q \<or> fs' q = Some Dir"
    using r q
    by (auto simp: dedup_finalize_def dedup_rename_def fs_access_def fs_unlink_def fs_rename_def
        split: sum.splits option.splits node.splits if_splits dest: fs_mkdir_other[where q=q])
  have 2: "fs' q = fs q" if "is_file (fs q)"
    using r q that
    by (auto simp: dedup_finalize_def dedup_rename_def fs_access_def fs_unlink_def fs_rename_def
        split: sum.splits option.splits node.splits if_splits dest: fs_mkdir_keeps_files[where p=q])
  show ?thesis using 1 2 by blast
qed

text \<open>
  With nothing at the final path the block is the making of the directory followed by
  the move; the final path is not one of the directories made.
\<close>

lemma dedup_rename_absent:
  assumes t: "fs tempPath = Some (File b)" and f: "fs finalPath = None"
    and abs: "isAbsolute finalPath" "finalPath \<noteq> ''/''"
  shows "dedup_finalize fs tempPath finalPath =
     (case fs_mkdir fs (posix_dirname finalPath) of
        Inl err \<Rightarrow> (fs, Some err)
      | Inr fs1 \<Rightarrow> (fs1(tempPath := None, finalPath \<mapsto> File b), None))"
proof (cases "fs_mkdir fs (posix_dirname finalPath)")
  case (Inl e)
  then show ?thesis using f by (simp add: dedup_finalize_def dedup_rename_def fs_access_def)
next
  case (Inr fs1)
  have "finalPath \<notin> set (ancestors (posix_dirname finalPath))" using not_own_ancestor[OF abs] .
  then have "fs1 finalPath = None" using fs_mkdir_Inr[OF Inr] f by simp
  then show ?thesis using dedup_absent[where fs=fs, OF t f Inr] Inr by simp
qed

text \<open>
  An upload whose final path already holds an object, as after a first upload of the
  same bytes, bucket, directory and extension.
\<close>

lemma second_upload_run:
  assumes first: "post_handler root cwd fs req1 = (fs1, r1)" "status r1 = 200"
    and content: "staged_bytes root cwd fs req1 = Some b"
    and stored: "map_of (json r1) ''path'' = Some (JString p)" "is_file (fs1 p)"
    and same: "bucket req2 = bucket req1" "finalDir req2 = finalDir req1" "ext req2 = ext req1"
    and staged: "savedFileName req2 = Some saved2" "saved2 \<noteq> []"
      "resolveSafePath cwd root [bucket req2, tempKey req2 saved2] = Inr temp2" "fs1 temp2 = None"
  shows "post_handler root cwd (fs1(temp2 \<mapsto> File b)) req2 = (fs1, post_success req2 (sha256_hex b) p)"
    and "r1 = post_success req1 (sha256_hex b) p"
    and "finalKey req2 (sha256_hex b) = finalKey req1 (sha256_hex b)"
proof -
  obtain b1 p1 where 1: "staged_bytes root cwd fs req1 = Some b1"
      "resolveSafePath cwd root [bucket req1, finalKey req1 (sha256_hex b1)] = Inr p1"
      "r1 = post_success req1 (sha256_hex b1) p1"
    using staged_bytes_200[OF first] by blast
  have b: "b1 = b" using 1(1) content by simp
  have p: "p1 = p" using stored(1) 1(3) by (simp add: post_success_def)
  show r1: "r1 = post_success req1 (sha256_hex b) p" using 1(3) b p by simp
  show k: "finalKey req2 (sha256_hex b) = finalKey req1 (sha256_hex b)"
    unfolding finalKey_def same ..
  have f: "resolveSafePath cwd root [bucket req2, finalKey req2 (sha256_hex b)] = Inr p"
    using 1(2) unfolding k same b p .
  let ?fs = "fs1(temp2 \<mapsto> File b)"
  have ne: "temp2 \<noteq> p" using stored(2) staged(4) by (auto simp: is_file_def)
  have t: "?fs temp2 = Some (File b)" by simp
  obtain n where n: "?fs p = Some n" using stored(2) ne by (cases "fs1 p") (auto simp: is_file_def)
  have bk: "?fs(temp2 := None) = fs1" using staged(4) by (auto simp: fun_eq_iff)
  have d: "dedup_finalize ?fs temp2 p = (fs1, None)"
    using dedup_existing[where fs="?fs", OF t n] unfolding bk .
  show "post_handler root cwd ?fs req2 = (fs1, post_success req2 (sha256_hex b) p)"
    using post_handler_staged[where fs="?fs" and req=req2 and saved=saved2 and tempPath=temp2
        and b=b and finalPath=p and cwd=cwd and root=root, OF staged(1) staged(2) staged(3) t f]
    unfolding d by simp
qed

text \<open>
  The existence check of the block does not ask what exists at the final path. A
  directory there, which a direct write to a key below the hashed name makes, passes
  the check as an object does: the staged file is deleted and no file is stored. The
  statement that follows is about final paths that hold a regular file or nothing.
\<close>

lemma dedup_directory_at_final_path:
  assumes "fs tempPath = Some (File b)" "fs finalPath = Some Dir"
  shows "dedup_finalize fs tempPath finalPath = (fs(tempPath := None), None)
         \<and> (fs(tempPath := None)) finalPath = Some Dir"
  using assms dedup_existing[where fs=fs, OF assms] by auto

text \<open>
  Claim C2, as amended. A staged regular file is finalised against a final
  content-addressed path. When a regular file already exists at the final path, another
  path than the staged one, the staged file is deleted and the object keeps its bytes.
  When nothing exists at the final path, an absolute path other than the root, the
  directory of the final path is made and the staged file is renamed to the final path;
  the finalisation fails, leaving the store as it was, exactly when that directory cannot
  be made. Whenever the final path held a regular file or nothing, a finalisation that
  succeeds leaves one file at the final path, the staged bytes where nothing was and the
  object that was there otherwise, leaves nothing at the staged path, and changes no
  other file. A second upload of the same content, bucket, directory and extension,
  staged under a fresh name after a first upload that was answered \<open>200\<close> and left its
  object at the final path, leaves the store exactly as the first upload left it and is
  answered with the ordinary success result: the six members \<open>bucket\<close>, \<open>key\<close>,
  \<open>path\<close>, \<open>url\<close>, \<open>size\<close>, \<open>sha256\<close>, with the key and the path of the first
  upload, and no member \<open>deduplicated\<close>.
\<close>

theorem dedup_finalize_outcomes:
  "(fs tempPath = Some (File b) \<and> fs finalPath = Some (File old) \<and> tempPath \<noteq> finalPath \<longrightarrow>
        dedup_finalize fs tempPath finalPath = (fs(tempPath := None), None)
        \<and> (fs(tempPath := None)) finalPath = Some (File old))
   \<and> (fs tempPath = Some (File b) \<and> fs finalPath = None \<and> isAbsolute finalPath \<and> finalPath \<noteq> ''/'' \<longrightarrow>
        dedup_finalize fs tempPath finalPath =
          (case fs_mkdir fs (posix_dirname finalPath) of
             Inl err \<Rightarrow> (fs, Some err)
           | Inr fsd \<Rightarrow> (fsd(tempPath := None, finalPath \<mapsto> File b), None)))
   \<and> (fs tempPath = Some (File b) \<and> (fs finalPath = None \<or> is_file (fs finalPath))
        \<and> tempPath \<noteq> finalPath \<and> dedup_finalize fs tempPath finalPath = (fs', None) \<longrightarrow>
        is_file (fs' finalPath) \<and> fs' tempPath = None
        \<and> fs' finalPath = (if fs finalPath = None then Some (File b) else fs finalPath)
        \<and> (\<forall>q. q \<noteq> tempPath \<and> q \<noteq> finalPath \<and> (is_file (fs q) \<or> is_file (fs' q)) \<longrightarrow>
               fs' q = fs q))
   \<and> (post_handler root cwd fs0 req1 = (fs1, r1) \<and> status r1 = 200
        \<and> staged_bytes root cwd fs0 req1 = Some b
        \<and> map_of (json r1) ''path'' = Some (JString p) \<and> is_file (fs1 p)
        \<and> bucket req2 = bucket req1 \<and> finalDir req2 = finalDir req1 \<and> ext req2 = ext req1
        \<and> savedFileName req2 = Some saved2 \<and> saved2 \<noteq> []
        \<and> resolveSafePath cwd root [bucket req2, tempKey req2 saved2] = Inr temp2
        \<and> fs1 temp2 = None \<longrightarrow>
        post_handler root cwd (fs1(temp2 \<mapsto> File b)) req2 = (fs1, post_success req2 (sha256_hex b) p)
        \<and> status (post_success req2 (sha256_hex b) p) = 200
        \<and> map_of (json (post_success req2 (sha256_hex b) p)) ''key'' = map_of (json r1) ''key''
        \<and> map_of (json (post_success req2 (sha256_hex b) p)) ''path'' = map_of (json r1) ''path''
        \<and> map fst (json (post_success req2 (sha256_hex b) p))
             = [''bucket'', ''key'', ''path'', ''url'', ''size'', ''sha256''])"
proof (intro conjI impI)
  assume a: "fs tempPath = Some (File b) \<and> fs finalPath = Some (File old) \<and> tempPath \<noteq> finalPath"
  then have t: "fs tempPath = Some (File b)" and f: "fs finalPath = Some (File old)" by blast+
  show "dedup_finalize fs tempPath finalPath = (fs(tempPath := None), None)"
    using dedup_existing[where fs=fs, OF t f] .
  show "(fs(tempPath := None)) finalPath = Some (File old)" using a by auto
next
  assume a: "fs tempPath = Some (File b) \<and> fs finalPath = None \<and> isAbsolute finalPath \<and> finalPath \<noteq> ''/''"
  then have t: "fs tempPath = Some (File b)" and f: "fs finalPath = None"
    and abs: "isAbsolute finalPath" "finalPath \<noteq> ''/''" by blast+
  show "dedup_finalize fs tempPath finalPath =
          (case fs_mkdir fs (posix_dirname finalPath) of
             Inl err \<Rightarrow> (fs, Some err)
           | Inr fsd \<Rightarrow> (fsd(tempPath := None, finalPath \<mapsto> File b), None))"
    using dedup_rename_absent[where fs=fs, OF t f abs] .
next
  assume a: "fs tempPath = Some (File b) \<and> (fs finalPath = None \<or> is_file (fs finalPath))
        \<and> tempPath \<noteq> finalPath \<and> dedup_finalize fs tempPath finalPath = (fs', None)"
  then have t: "fs tempPath = Some (File b)" and f: "fs finalPath = None \<or> is_file (fs finalPath)"
    and ne: "tempPath \<noteq> finalPath" and r: "dedup_finalize fs tempPath finalPath = (fs', None)"
    by blast+
  have s: "is_file (fs' finalPath) \<and> fs' tempPath = None"
    using dedup_success_state[where fs=fs, OF t ne f r] .
  then show "is_file (fs' finalPath)" "fs' tempPath = None" by blast+
  show "fs' finalPath = (if fs finalPath = None then Some (File b) else fs finalPath)"
  proof (cases "fs finalPath")
    case None
    have keep: "fsd tempPath = Some (File b)" if "fs_mkdir fs (posix_dirname finalPath) = Inr fsd" for fsd
      using fs_mkdir_keeps_files[OF that, of tempPath] t by (simp add: is_file_def)
    show ?thesis using r t ne None
      by (auto simp: dedup_finalize_def dedup_rename_def fs_access_def fs_rename_def
          split: sum.splits option.splits node.splits if_splits dest: keep)
  next
    case (Some n)
    then show ?thesis using r ne dedup_existing[where fs=fs, OF t Some] by auto
  qed
  show "\<forall>q. q \<noteq> tempPath \<and> q \<noteq> finalPath \<and> (is_file (fs q) \<or> is_file (fs' q)) \<longrightarrow> fs' q = fs q"
  proof (intro allI impI)
    fix q assume q: "q \<noteq> tempPath \<and> q \<noteq> finalPath \<and> (is_file (fs q) \<or> is_file (fs' q))"
    then have q1: "q \<noteq> tempPath" and q2: "q \<noteq> finalPath" by blast+
    have fr: "(fs' q = fs q \<or> fs' q = Some Dir) \<and> (is_file (fs q) \<longrightarrow> fs' q = fs q)"
      using dedup_frame[OF r q1 q2] .
    show "fs' q = fs q"
    proof (cases "is_file (fs q)")
      case True then show ?thesis using fr by blast
    next
      case False
      then have "is_file (fs' q)" using q by blast
      then have "fs' q \<noteq> Some Dir" by (auto simp: is_file_def)
      then show ?thesis using fr by blast
    qed
  qed
next
  assume a: "post_handler root cwd fs0 req1 = (fs1, r1) \<and> status r1 = 200
        \<and> staged_bytes root cwd fs0 req1 = Some b
        \<and> map_of (json r1) ''path'' = Some (JString p) \<and> is_file (fs1 p)
        \<and> bucket req2 = bucket req1 \<and> finalDir req2 = finalDir req1 \<and> ext req2 = ext req1
        \<and> savedFileName req2 = Some saved2 \<and> saved2 \<noteq> []
        \<and> resolveSafePath cwd root [bucket req2, tempKey req2 saved2] = Inr temp2
        \<and> fs1 temp2 = None"
  then have first: "post_handler root cwd fs0 req1 = (fs1, r1)" "status r1 = 200"
    and content: "staged_bytes root cwd fs0 req1 = Some b"
    and stored: "map_of (json r1) ''path'' = Some (JString p)" "is_file (fs1 p)"
    and same: "bucket req2 = bucket req1" "finalDir req2 = finalDir req1" "ext req2 = ext req1"
    and staged: "savedFileName req2 = Some saved2" "saved2 \<noteq> []"
      "resolveSafePath cwd root [bucket req2, tempKey req2 saved2] = Inr temp2" "fs1 temp2 = None"
    by blast+
  note R = second_upload_run[OF first content stored same staged]
  show "post_handler root cwd (fs1(temp2 \<mapsto> File b)) req2 = (fs1, post_success req2 (sha256_hex b) p)"
    using R(1) .
  show "status (post_success req2 (sha256_hex b) p) = 200" by (simp add: post_success_def)
  show "map_of (json (post_success req2 (sha256_hex b) p)) ''key'' = map_of (json r1) ''key''"
    unfolding R(2) by (simp add: post_success_def R(3))
  show "map_of (json (post_success req2 (sha256_hex b) p)) ''path'' = map_of (json r1) ''path''"
    unfolding R(2) by (simp add: post_success_def)
  show "map fst (json (post_success req2 (sha256_hex b) p))
             = [''bucket'', ''key'', ''path'', ''url'', ''size'', ''sha256'']"
    by (simp add: post_success_def)
qed

text \<open>
  In the example store: an upload that finds the object in place, an upload that finds
  the final path empty beside another staged file, and a second upload of \<open>hello\<close>
  after a first one has stored it.
\<close>

lemma demo_race_mkdir:
  "fs_mkdir (demo_dirs(demo_temp \<mapsto> File hello, demo_temp2 \<mapsto> File hello)) (posix_dirname demo_final)
     = Inr (demo_dirs(demo_temp \<mapsto> File hello, demo_temp2 \<mapsto> File hello))"
proof -
  let ?fs = "demo_dirs(demo_temp \<mapsto> File hello, demo_temp2 \<mapsto> File hello)"
  have "(\<lambda>q. if q \<in> set (ancestors ''/srv/public/docs/a/b'') then Some Dir else ?fs q) = ?fs"
    unfolding demo_ancestors by (auto simp: fun_eq_iff demo_dirs_def demo_temp_def demo_temp2_def)
  then show ?thesis using demo_race_dir by (simp add: fs_mkdir_cases demo_final_dirname)
qed

lemma demo_after_first:
  "((demo_dirs(demo_temp2 \<mapsto> File hello))(demo_temp2 := None, demo_final \<mapsto> File hello)) demo_temp = None
   \<and> is_file (((demo_dirs(demo_temp2 \<mapsto> File hello))(demo_temp2 := None, demo_final \<mapsto> File hello)) demo_final)"
  using demo_race_paths by (simp add: is_file_def demo_dirs_def demo_temp_def)

theorem dedup_finalize_outcomes_witness:
  "dedup_finalize (demo_dirs(demo_temp \<mapsto> File hello, demo_final \<mapsto> File hello)) demo_temp demo_final
     = ((demo_dirs(demo_temp \<mapsto> File hello, demo_final \<mapsto> File hello))(demo_temp := None), None)
   \<and> ((demo_dirs(demo_temp \<mapsto> File hello, demo_final \<mapsto> File hello))(demo_temp := None)) demo_final
     = Some (File hello)
   \<and> dedup_finalize (demo_dirs(demo_temp \<mapsto> File hello, demo_temp2 \<mapsto> File hello)) demo_temp demo_final
     = ((demo_dirs(demo_temp \<mapsto> File hello, demo_temp2 \<mapsto> File hello))
          (demo_temp := None, demo_final \<mapsto> File hello), None)
   \<and> is_file (((demo_dirs(demo_temp \<mapsto> File hello, demo_temp2 \<mapsto> File hello))
          (demo_temp := None, demo_final \<mapsto> File hello)) demo_final)
   \<and> ((demo_dirs(demo_temp \<mapsto> File hello, demo_temp2 \<mapsto> File hello))
          (demo_temp := None, demo_final \<mapsto> File hello)) demo_temp = None
   \<and> ((demo_dirs(demo_temp \<mapsto> File hello, demo_temp2 \<mapsto> File hello))
          (demo_temp := None, demo_final \<mapsto> File hello)) demo_temp2 = Some (File hello)
   \<and> post_handler ''/srv/public'' ''/''
        (((demo_dirs(demo_temp2 \<mapsto> File hello))(demo_temp2 := None, demo_final \<mapsto> File hello))
           (demo_temp \<mapsto> File hello)) demo_request
     = ((demo_dirs(demo_temp2 \<mapsto> File hello))(demo_temp2 := None, demo_final \<mapsto> File hello),
        post_success demo_request hello_hex demo_final)
   \<and> map_of (json (post_success demo_request hello_hex demo_final)) ''key''
     = map_of (json (post_success demo_request2 hello_hex demo_final)) ''key''"
proof -
  let ?fsA = "demo_dirs(demo_temp \<mapsto> File hello, demo_final \<mapsto> File hello)"
  let ?fsC = "demo_dirs(demo_temp \<mapsto> File hello, demo_temp2 \<mapsto> File hello)"
  let ?fsC' = "?fsC(demo_temp := None, demo_final \<mapsto> File hello)"
  let ?fsB = "demo_dirs(demo_temp2 \<mapsto> File hello)"
  let ?fs1 = "?fsB(demo_temp2 := None, demo_final \<mapsto> File hello)"
  let ?r1 = "post_success demo_request2 hello_hex demo_final"
  have ne: "demo_temp \<noteq> demo_final" and abs: "isAbsolute demo_final" "demo_final \<noteq> ''/''"
    and t12: "demo_temp \<noteq> demo_temp2" and t2f: "demo_temp2 \<noteq> demo_final"
    using demo_race_paths by blast+
  have tA: "?fsA demo_temp = Some (File hello)" using ne by simp
  have fA: "?fsA demo_final = Some (File hello)" by simp
  note A = dedup_finalize_outcomes[where fs="?fsA" and tempPath=demo_temp and b=hello
      and finalPath=demo_final and old=hello, THEN conjunct1, THEN mp, OF conjI[OF tA conjI[OF fA ne]]]
  have 1: "dedup_finalize ?fsA demo_temp demo_final = (?fsA(demo_temp := None), None)"
    using A by blast
  have 2: "(?fsA(demo_temp := None)) demo_final = Some (File hello)" using A by blast
  have tC: "?fsC demo_temp = Some (File hello)" using t12 by simp
  have fC: "?fsC demo_final = None" by (rule demo_race_final_absent)
  have 3: "dedup_finalize ?fsC demo_temp demo_final = (?fsC', None)"
    using dedup_finalize_outcomes[where fs="?fsC" and tempPath=demo_temp and b=hello
      and finalPath=demo_final, THEN conjunct2, THEN conjunct1, THEN mp,
      OF conjI[OF tC conjI[OF fC conjI[OF abs]]]]
    unfolding demo_race_mkdir by simp
  have fC': "?fsC demo_final = None \<or> is_file (?fsC demo_final)" using fC by blast
  note C = dedup_finalize_outcomes[where fs="?fsC" and tempPath=demo_temp and b=hello
      and finalPath=demo_final and fs'="?fsC'", THEN conjunct2, THEN conjunct2, THEN conjunct1, THEN mp,
      OF conjI[OF tC conjI[OF fC' conjI[OF ne 3]]]]
  have 4: "is_file (?fsC' demo_final)" using C by blast
  have 5: "?fsC' demo_temp = None" using C by blast
  have q: "demo_temp2 \<noteq> demo_temp \<and> demo_temp2 \<noteq> demo_final
           \<and> (is_file (?fsC demo_temp2) \<or> is_file (?fsC' demo_temp2))"
    using t12 t2f by (simp add: is_file_def)
  have "?fsC' demo_temp2 = ?fsC demo_temp2" using C q by blast
  then have 6: "?fsC' demo_temp2 = Some (File hello)" by simp
  have s: "status ?r1 = 200" and pth: "map_of (json ?r1) ''path'' = Some (JString demo_final)"
    by (simp_all add: post_success_def)
  have same: "bucket demo_request = bucket demo_request2" "finalDir demo_request = finalDir demo_request2"
      "ext demo_request = ext demo_request2"
    using demo_same_address by blast+
  have sb: "staged_bytes ''/srv/public'' ''/'' ?fsB demo_request2 = Some hello"
    using demo_staged_bytes by blast
  have sv: "savedFileName demo_request = Some demo_saved" "demo_saved \<noteq> []"
    using demo_saved_name by blast+
  have fresh: "?fs1 demo_temp = None" and stored: "is_file (?fs1 demo_final)"
    using demo_after_first by blast+
  note D = dedup_finalize_outcomes[where root="''/srv/public''" and cwd="''/''" and ?fs0.0="?fsB"
      and ?req1.0=demo_request2 and ?fs1.0="?fs1" and ?r1.0="?r1" and b=hello and p=demo_final
      and ?req2.0=demo_request and ?saved2.0=demo_saved and ?temp2.0=demo_temp,
      THEN conjunct2, THEN conjunct2, THEN conjunct2, THEN mp,
      OF conjI[OF demo2_post_fresh conjI[OF s conjI[OF sb conjI[OF pth conjI[OF stored
        conjI[OF same(1) conjI[OF same(2) conjI[OF same(3) conjI[OF sv(1) conjI[OF sv(2)
        conjI[OF demo_temp_resolved fresh]]]]]]]]]]]]
  have 7: "post_handler ''/srv/public'' ''/'' (?fs1(demo_temp \<mapsto> File hello)) demo_request
     = (?fs1, post_success demo_request (sha256_hex hello) demo_final)"
    using D by blast
  have 8: "map_of (json (post_success demo_request (sha256_hex hello) demo_final)) ''key''
     = map_of (json ?r1) ''key''"
    using D by blast
  show ?thesis
    by (intro conjI) (rule 1, rule 2, rule 3, rule 4, rule 5, rule 6,
        rule 7[unfolded sha256_hex_hello], rule 8[unfolded sha256_hex_hello])
qed

text \<open>
  The claim as stated has the second upload report \<open>deduplicated = true\<close>. The second
  upload of \<open>hello\<close> in the example store answers \<open>200\<close> with no such member.
\<close>

theorem second_upload_reports_no_deduplicated_flag:
  "status (snd (post_handler ''/srv/public'' ''/''
             (demo_dirs(demo_temp \<mapsto> File hello, demo_final \<mapsto> File hello)) demo_request)) = 200
   \<and> map_of (json (snd (post_handler ''/srv/public'' ''/''
             (demo_dirs(demo_temp \<mapsto> File hello, demo_final \<mapsto> File hello)) demo_request)))
        ''deduplicated'' = None"
  unfolding demo_post_dedup by (simp add: post_success_def)


section \<open>The hashed upload through the middleware\<close>

text \<open>
  The staging directory is the directory of the key as the handler computes it, taken
  on the fields that precede the file part. The middleware runs the two callbacks and
  the write stream in turn and stops at the first error.
\<close>

lemma storage_destination_finalDir:
  "storage_destination root cwd fs req =
     (case resolveSafePath cwd root [bucket req, finalDir req] of
        Inl err \<Rightarrow> (fs, Inl err)
      | Inr destDir \<Rightarrow>
          (case fs_mkdir fs destDir of
             Inl err \<Rightarrow> (fs, Inl err)
           | Inr fs' \<Rightarrow> (fs', Inr destDir)))"
  unfolding storage_destination_logical finalDir_logical by (simp add: Let_def)



lemma put_handler_status:
  "status (snd (put_handler root cwd fs b k payload)) = 200
   \<or> status (snd (put_handler root cwd fs b k payload)) = 400
   \<or> status (snd (put_handler root cwd fs b k payload)) = 500"
  by (auto simp: put_handler_def Let_def put_success_def error_response_def split: sum.splits)



lemma upload_single_run:
  assumes "form_file m = Some part" "part_filename part \<noteq> []"
  shows "upload_single root cwd fs bkt rnd (Some m) =
     (case resolveSafePath cwd root [bkt, finalDir (staging_request bkt m)] of
        Inl err \<Rightarrow> (fs, Inl err)
      | Inr destDir \<Rightarrow>
          (case fs_mkdir fs destDir of
             Inl err \<Rightarrow> (fs, Inl err)
           | Inr fs1 \<Rightarrow>
               (case fs_write fs1 (posix_join [destDir,
                        storage_filename rnd (staging_request bkt m) (part_filename part)])
                      (part_content part) of
                  Inl err \<Rightarrow> (fs1, Inl err)
                | Inr fs2 \<Rightarrow>
                    (fs2, Inr (handler_request bkt m
                       (Some \<lparr>filename = storage_filename rnd (staging_request bkt m) (part_filename part),
                              originalname = part_filename part,
                              size_bytes = length (part_content part)\<rparr>))))))"
proof -
  have b: "bucket (staging_request bkt m) = bkt" by (simp add: staging_request_def)
  show ?thesis
    using assms
    by (simp add: upload_single_def storage_destination_finalDir b Let_def split: sum.splits)
qed



lemma demo_part_named: "form_file demo_form = Some demo_part \<and> part_filename demo_part \<noteq> []
   \<and> form_file demo_form_late = Some demo_part \<and> form_file demo_form_escape = Some demo_part
   \<and> form_file demo_form_c = Some demo_part \<and> part_content demo_part = hello
   \<and> part_filename demo_part = ''file.txt''"
  by (simp add: demo_form_def demo_part_def demo_form_late_def demo_form_escape_def demo_form_c_def)

lemma demo_stage_ab:
  "resolveSafePath ''/'' ''/srv/public'' [''docs'', finalDir (staging_request ''docs'' demo_form)] = Inr ''/srv/public/docs/a/b''
   \<and> posix_join [''/srv/public/docs/a/b'', storage_filename demo_rnd (staging_request ''docs'' demo_form) ''file.txt''] = demo_temp"
  by code_simp

text \<open>
  The upload of the example sent through the middleware: the file is staged where the
  handler looks for it, and stored under its fingerprint; the same bytes sent again
  under the alias \<open>Key\<close> leave the store as it is.
\<close>

lemma demo_forms_staged:
  "handler_request ''docs'' demo_form
      (Some \<lparr>filename = demo_saved, originalname = ''file.txt'', size_bytes = length hello\<rparr>) = demo_request
   \<and> handler_request ''docs'' demo_form2
      (Some \<lparr>filename = demo_saved2, originalname = ''notes.txt'', size_bytes = length hello\<rparr>) = demo_request2"
  by (simp add: handler_request_def demo_form_def demo_form2_def demo_request_def demo_request2_def hello_def)

lemma demo_stage_second:
  "resolveSafePath ''/'' ''/srv/public'' [''docs'', finalDir (staging_request ''docs'' demo_form2)]
     = Inr ''/srv/public/docs/a/b''
   \<and> storage_filename demo_rnd2 (staging_request ''docs'' demo_form2) ''notes.txt'' = demo_saved2
   \<and> posix_join [''/srv/public/docs/a/b'', demo_saved2] = demo_temp2
   \<and> storage_filename demo_rnd (staging_request ''docs'' demo_form) ''file.txt'' = demo_saved
   \<and> posix_dirname demo_temp = ''/srv/public/docs/a/b''
   \<and> posix_dirname demo_temp2 = ''/srv/public/docs/a/b''"
  by code_simp

lemma demo_entry_upload:
  "post_entry ''/srv/public'' ''/'' demo_dirs ''docs'' demo_rnd (Some demo_form)
     = (demo_dirs(demo_final \<mapsto> File hello), post_success demo_request hello_hex demo_final)"
proof -
  let ?fsB = "demo_dirs(demo_temp \<mapsto> File hello)"
  have w: "fs_write demo_dirs demo_temp hello = Inr ?fsB"
    by (simp add: fs_write_def demo_stage_second) (simp add: demo_dirs_def demo_temp_def)
  have u: "upload_single ''/srv/public'' ''/'' demo_dirs ''docs'' demo_rnd (Some demo_form) = (?fsB, Inr demo_request)"
    using demo_part_named demo_stage_ab demo_stage_second demo_dirs_mkdir w demo_forms_staged
    by (simp add: upload_single_run[where part=demo_part])
  have t: "?fsB demo_temp = Some (File hello)" by simp
  have d: "dedup_finalize ?fsB demo_temp demo_final = (?fsB(demo_temp := None, demo_final \<mapsto> File hello), None)"
    using dedup_absent[where fs="?fsB", OF t demo_final_absent demo_mkdir demo_final_absent] .
  have f: "resolveSafePath ''/'' ''/srv/public'' [bucket demo_request, finalKey demo_request (sha256_hex hello)] = Inr demo_final"
    unfolding sha256_hex_hello by (rule demo_final_resolved)
  have e: "?fsB(demo_temp := None, demo_final \<mapsto> File hello) = demo_dirs(demo_final \<mapsto> File hello)"
    by (auto simp: fun_eq_iff demo_dirs_def demo_temp_def)
  have "post_handler ''/srv/public'' ''/'' ?fsB demo_request
      = (demo_dirs(demo_final \<mapsto> File hello), post_success demo_request hello_hex demo_final)"
    using post_handler_staged[where fs="?fsB" and req=demo_request and saved=demo_saved and tempPath=demo_temp
          and b=hello and finalPath=demo_final and cwd="''/''" and root="''/srv/public''"]
      demo_saved_name demo_temp_resolved f t d e by (simp add: sha256_hex_hello)
  then show ?thesis using u by (simp add: post_entry_def)
qed

lemma demo_entry_second_upload:
  "post_entry ''/srv/public'' ''/'' (demo_dirs(demo_final \<mapsto> File hello)) ''docs'' demo_rnd2 (Some demo_form2)
     = (demo_dirs(demo_final \<mapsto> File hello), post_success demo_request2 hello_hex demo_final)"
proof -
  let ?fs1 = "demo_dirs(demo_final \<mapsto> File hello)"
  let ?fs2 = "?fs1(demo_temp2 \<mapsto> File hello)"
  have fn: "demo_final \<notin> set (ancestors ''/srv/public/docs/a/b'')"
    using not_own_ancestor[of demo_final] demo_race_paths demo_final_dirname by simp
  have m: "fs_mkdir ?fs1 ''/srv/public/docs/a/b'' = Inr ?fs1"
  proof -
    have "\<not> list_ex (\<lambda>a. is_file (?fs1 a)) (ancestors ''/srv/public/docs/a/b'')"
      using fn unfolding demo_ancestors by (auto simp: demo_dirs_def is_file_def)
    moreover have "(\<lambda>q. if q \<in> set (ancestors ''/srv/public/docs/a/b'') then Some Dir else ?fs1 q) = ?fs1"
      using fn unfolding demo_ancestors by (auto simp: fun_eq_iff demo_dirs_def)
    ultimately show ?thesis by (simp add: fs_mkdir_cases)
  qed
  have t2f: "demo_temp2 \<noteq> demo_final" using demo_race_paths by blast
  have dn: "''/srv/public/docs/a/b'' \<noteq> demo_final" using fn unfolding demo_ancestors by auto
  have w: "fs_write ?fs1 demo_temp2 hello = Inr ?fs2"
    using t2f dn by (simp add: fs_write_def demo_stage_second) (simp add: demo_dirs_def demo_temp2_def)
  have pn: "form_file demo_form2 = Some \<lparr>part_filename = ''notes.txt'', part_content = hello\<rparr>"
    by (simp add: demo_form2_def)
  have u: "upload_single ''/srv/public'' ''/'' ?fs1 ''docs'' demo_rnd2 (Some demo_form2) = (?fs2, Inr demo_request2)"
    using pn demo_stage_second m w demo_forms_staged
    by (simp add: upload_single_run[where part="\<lparr>part_filename = ''notes.txt'', part_content = hello\<rparr>"])
  have t: "?fs2 demo_temp2 = Some (File hello)" by simp
  have ff: "?fs2 demo_final = Some (File hello)" using t2f by simp
  have e: "?fs2(demo_temp2 := None) = ?fs1"
    using t2f by (auto simp: fun_eq_iff demo_dirs_def demo_temp2_def)
  have d: "dedup_finalize ?fs2 demo_temp2 demo_final = (?fs1, None)"
    using dedup_existing[where fs="?fs2", OF t ff] unfolding e .
  have f: "resolveSafePath ''/'' ''/srv/public'' [bucket demo_request2, finalKey demo_request2 (sha256_hex hello)] = Inr demo_final"
    unfolding sha256_hex_hello by (rule demo2_final_resolved)
  have "post_handler ''/srv/public'' ''/'' ?fs2 demo_request2
      = (?fs1, post_success demo_request2 hello_hex demo_final)"
    using post_handler_staged[where fs="?fs2" and req=demo_request2 and saved=demo_saved2 and tempPath=demo_temp2
          and b=hello and finalPath=demo_final and cwd="''/''" and root="''/srv/public''"]
      demo2_saved_name demo2_temp_resolved f t d by (simp add: sha256_hex_hello)
  then show ?thesis using u by (simp add: post_entry_def)
qed


section \<open>C8: how failures are answered\<close>





















end
